theory Spec2Isabelle
  imports Complex_Main "HOL-Library.Multiset"
begin

section \<open>Data model\<close>

text \<open>
  The notebook computes with Python numbers (ints and IEEE 754 doubles).  The embedding
  has two layers over the type \<open>real\<close>.  In the exact layer every decimal literal of
  the source denotes the rational it spells and \<open>+\<close>, \<open>-\<close>, \<open>*\<close>, \<open>/\<close> are
  exact.  In the double layer (names ending in \<open>_fl\<close>) every literal and every result
  of an arithmetic operation is rounded to the nearest double by \<open>fl\<close>.  Properties
  that rounding can decide are stated in the double layer.
\<close>

type_synonym scalar_function = "real \<Rightarrow> real"

text \<open>A function together with its derivative, as the source passes them around.\<close>

type_synonym differentiable_function = "scalar_function \<times> scalar_function"

text \<open>A quadrature rule: the rows \<open>[\<xi>_k, w_k]\<close> of the table, in order.\<close>

type_synonym quadrature_rule = "(real \<times> real) list"

type_synonym domain = "real \<times> real"

type_synonym integrator = "domain \<Rightarrow> scalar_function \<Rightarrow> real"

type_synonym bilinear_form =
  "scalar_function \<Rightarrow> scalar_function \<Rightarrow> scalar_function \<Rightarrow> scalar_function \<Rightarrow> real"

type_synonym linear_form = "scalar_function \<Rightarrow> scalar_function \<Rightarrow> real"

section \<open>Gaussian quadrature\<close>

text \<open>
  The dictionary \<open>integration_points\<close>, keyed by the order of the rule.  The rows of
  order 7 are listed as in the source: both negative abscissae first.
\<close>

definition integration_points :: "int \<rightharpoonup> quadrature_rule" where
  "integration_points =
     [1 \<mapsto> [(0, 2)],
      3 \<mapsto> [(- (577350269189625 / 10 ^ 15), 1), (577350269189625 / 10 ^ 15, 1)],
      5 \<mapsto> [(- (774596669241483 / 10 ^ 15), 555555555555556 / 10 ^ 15),
             (0, 888888888888889 / 10 ^ 15),
             (774596669241483 / 10 ^ 15, 555555555555556 / 10 ^ 15)],
      7 \<mapsto> [(- (861136311594052 / 10 ^ 15), 347854845137454 / 10 ^ 15),
             (- (339981043584856 / 10 ^ 15), 652145154862545 / 10 ^ 15),
             (861136311594052 / 10 ^ 15, 347854845137454 / 10 ^ 15),
             (339981043584856 / 10 ^ 15, 652145154862545 / 10 ^ 15)]]"

text \<open>Python's builtin \<open>sum\<close>: a left-to-right accumulation that starts from 0.\<close>

definition py_sum :: "real list \<Rightarrow> real" where
  "py_sum xs = foldl (+) 0 xs"

text \<open>\<open>sum(w_k * f(\<xi>_k) for \<xi>_k, w_k in integration_points)\<close>\<close>

definition integrate_on_reference_element :: "quadrature_rule \<Rightarrow> scalar_function \<Rightarrow> real" where
  "integrate_on_reference_element ips f = py_sum (map (\<lambda>(\<xi>, w). w * f \<xi>) ips)"

text \<open>
  \<open>integrate\<close> unpacks the domain, builds the three lambdas \<open>T\<close>, \<open>J\<close> and
  \<open>f_hat\<close> and delegates.  \<open>J\<close> ignores its argument.  The body tests nothing about
  \<open>a\<close> and \<open>b\<close>.
\<close>

fun integrate :: "quadrature_rule \<Rightarrow> domain \<Rightarrow> scalar_function \<Rightarrow> real" where
  "integrate ips (a, b) f =
     (let T = (\<lambda>\<xi>. a * (1 - \<xi>) / 2 + b * (1 + \<xi>) / 2);
          J = (\<lambda>\<xi>::real. (b - a) / 2);
          f_hat = (\<lambda>\<xi>. f (T \<xi>) * J \<xi>)
      in integrate_on_reference_element ips f_hat)"

text \<open>
  The outcome of a call: a returned value or a raised error.  The names of the errors
  are the taxonomy of the specification; the notebook itself defines no exception and
  contains no \<open>raise\<close> or \<open>assert\<close>.
\<close>

datatype error = InvalidDomain | InvalidDomainLength | UnknownQuadratureOrder | EmptyBasis

datatype 'a outcome = Returned 'a | Raised error

text \<open>
  A call of \<open>integrate\<close> as the caller sees it.  The body is five straight-line
  statements without a test, so the only outcome is the returned sum.
\<close>

definition integrate_call :: "quadrature_rule \<Rightarrow> domain \<Rightarrow> scalar_function \<Rightarrow> real outcome" where
  "integrate_call ips domain f = Returned (integrate ips domain f)"

section \<open>Weak formulation\<close>

text \<open>
  \<open>weak_formulation\<close> returns the two closures \<open>a\<close> and \<open>l\<close>.  The parameter
  \<open>c\<close> is accepted and never used; \<open>l\<close> ignores the derivative it is given.
\<close>

definition weak_formulation ::
  "integrator \<Rightarrow> real \<Rightarrow> scalar_function \<Rightarrow> scalar_function \<Rightarrow> scalar_function \<Rightarrow> real \<Rightarrow> real
     \<Rightarrow> bilinear_form \<times> linear_form" where
  "weak_formulation integ L p q r c d =
     (let a = (\<lambda>u w du_dx dw_dx.
                 let integrand = (\<lambda>x. p x * u x * w x + q x * du_dx x * dw_dx x)
                 in integ (0, L) integrand);
          l = (\<lambda>w dw_dx.
                 let integrand = (\<lambda>x. r x * w x)
                 in d * w L + integ (0, L) integrand)
      in (a, l))"

section \<open>Polynomial basis\<close>

text \<open>
  \<open>x ** k\<close> with an integer exponent is \<open>powi\<close>.  For \<open>k \<le> 0\<close> the derivative
  has a negative exponent, and Python raises ZeroDivisionError at \<open>x = 0\<close> where
  \<open>powi\<close> returns 0; the basis of the notebook uses \<open>k = 1, ..., 4\<close> only.
\<close>

definition polynomial_basis_function :: "int \<Rightarrow> differentiable_function" where
  "polynomial_basis_function k =
     (let \<phi>k = (\<lambda>x. x powi k);
          d\<phi>k_dx = (\<lambda>x. of_int k * x powi (k - 1))
      in (\<phi>k, d\<phi>k_dx))"

text \<open>\<open>[polynomial_basis_function(k) for k in range(1, 5)]\<close>\<close>

definition polynomial_basis :: "differentiable_function list" where
  "polynomial_basis = map polynomial_basis_function [1..4]"

section \<open>Ritz method\<close>

text \<open>
  \<open>np.empty\<close> allocates without initialising.  The model fills with zeros and
  \<open>ritz_loop\<close> takes the arrays as arguments, so that the independence of the
  result from the initial contents is a lemma (\<open>ritz_loop_fills\<close>).
\<close>

definition np_empty1 :: "nat \<Rightarrow> real list" where
  "np_empty1 n = replicate n 0"

definition np_empty2 :: "nat \<Rightarrow> nat \<Rightarrow> real list list" where
  "np_empty2 m n = replicate m (replicate n 0)"

text \<open>The assignment \<open>A[i, j] = v\<close>.\<close>

definition set_entry :: "real list list \<Rightarrow> nat \<Rightarrow> nat \<Rightarrow> real \<Rightarrow> real list list" where
  "set_entry A i j v = A[i := (A ! i)[j := v]]"

text \<open>The inner loop over \<open>j\<close>, for the row \<open>i\<close> and its test function.\<close>

definition ritz_row ::
  "bilinear_form \<Rightarrow> differentiable_function list \<Rightarrow> nat \<Rightarrow> differentiable_function
     \<Rightarrow> real list list \<Rightarrow> real list list" where
  "ritz_row a basis i \<phi>i_pair A =
     fold (\<lambda>(j, (\<phi>j, d\<phi>j_dx)) A. set_entry A i j (a \<phi>j (fst \<phi>i_pair) d\<phi>j_dx (snd \<phi>i_pair)))
          (enumerate 0 basis) A"

text \<open>The outer loop over \<open>i\<close>: the row of \<open>A\<close>, then \<open>b[i]\<close>.\<close>

definition ritz_loop ::
  "bilinear_form \<Rightarrow> linear_form \<Rightarrow> differentiable_function list
     \<Rightarrow> real list list \<times> real list \<Rightarrow> real list list \<times> real list" where
  "ritz_loop a l basis =
     fold (\<lambda>(i, (\<phi>i, d\<phi>i_dx)) (A, b).
             (ritz_row a basis i (\<phi>i, d\<phi>i_dx) A, b[i := l \<phi>i d\<phi>i_dx]))
          (enumerate 0 basis)"

fun ritz ::
  "bilinear_form \<times> linear_form \<Rightarrow> differentiable_function list \<Rightarrow> real list list \<times> real list" where
  "ritz (a, l) basis =
     (let n_dof = length basis;
          A = np_empty2 n_dof n_dof;
          b = np_empty1 n_dof
      in ritz_loop a l basis (A, b))"

section \<open>The worked example\<close>

text \<open>
  The cell that sets \<open>L = 10\<close>, \<open>p = 0\<close>, \<open>q = r = 1\<close>, \<open>c = d = 1\<close>, builds
  the integrator from \<open>integration_points[7]\<close> and assembles the system over
  \<open>polynomial_basis\<close>.  A missing key of the dictionary would be a KeyError: \<open>None\<close>.
\<close>

definition example_system :: "(real list list \<times> real list) option" where
  "example_system =
     (case integration_points 7 of
        None \<Rightarrow> None
      | Some ips \<Rightarrow>
          (let L = 10; p = (\<lambda>x. 0); q = (\<lambda>x. 1); r = q; c = 1; d = c;
               integrator = (\<lambda>domain f. integrate ips domain f)
           in Some (ritz (weak_formulation integrator L p q r c d) polynomial_basis)))"

section \<open>Double arithmetic\<close>

text \<open>
  A double is \<open>n * 2 ^ k\<close> with \<open>|n| \<le> 2 ^ 53\<close> and \<open>k \<ge> - 1074\<close>.  IEEE 754
  returns, for \<open>+\<close>, \<open>-\<close>, \<open>*\<close> and \<open>/\<close>, the exact result rounded to the
  nearest double, ties to the even significand; Python reads a decimal literal the same
  way.  \<open>fl\<close> is this rounding: the spacing of the doubles around \<open>x\<close> is
  \<open>quantum x\<close> (52 binary places below the leading bit of \<open>x\<close>, and never below
  \<open>2 ^ - 1074\<close>, the spacing of the subnormal numbers).  The exponent has no upper
  limit here: overflow to infinity, NaN and the sign of zero are not modelled.
\<close>

definition round_half_even :: "real \<Rightarrow> int" where
  "round_half_even y =
     (let n = \<lfloor>y\<rfloor>; r = y - of_int n
      in if r < 1 / 2 then n else if 1 / 2 < r then n + 1 else if even n then n else n + 1)"

definition exponent :: "real \<Rightarrow> int" where
  "exponent x = \<lfloor>log 2 \<bar>x\<bar>\<rfloor>"

definition quantum :: "real \<Rightarrow> real" where
  "quantum x = 2 powi (max (exponent x - 52) (- 1074))"

definition fl :: "real \<Rightarrow> real" where
  "fl x = of_int (round_half_even (x / quantum x)) * quantum x"

text \<open>
  Values the program can hold, functions that map doubles to doubles (every Python
  function of a float does), and integrators that read their integrand at doubles only.
\<close>

definition is_double :: "real \<Rightarrow> bool" where
  "is_double v \<longleftrightarrow> fl v = v"

definition double_valued :: "scalar_function \<Rightarrow> bool" where
  "double_valued f \<longleftrightarrow> (\<forall>x. is_double x \<longrightarrow> is_double (f x))"

definition samples_doubles :: "integrator \<Rightarrow> bool" where
  "samples_doubles integ \<longleftrightarrow> (\<forall>domain f. integ domain f = integ domain (\<lambda>x. f (fl x)))"


text \<open>
  \<open>sum\<close> of Python 3.7, the notebook's kernel: it starts from the int 0 and adds the
  terms from left to right, each addition rounded.
\<close>

definition py_sum_fl :: "real list \<Rightarrow> real" where
  "py_sum_fl xs = foldl (\<lambda>acc t. fl (acc + t)) 0 xs"

text \<open>\<open>sum(w_k * f(\<xi>_k) for \<xi>_k, w_k in integration_points)\<close>, every product rounded.\<close>

definition integrate_on_reference_element_fl :: "quadrature_rule \<Rightarrow> scalar_function \<Rightarrow> real" where
  "integrate_on_reference_element_fl ips f = py_sum_fl (map (\<lambda>(\<xi>, w). fl (w * f \<xi>)) ips)"

text \<open>
  \<open>integrate\<close> with its operations in the order Python evaluates them:
  \<open>((a * (1 - \<xi>)) / 2.) + ((b * (1 + \<xi>)) / 2.)\<close>, \<open>(b - a) / 2.\<close> and
  \<open>f(T(\<xi>)) * J(\<xi>)\<close>.
\<close>

fun integrate_fl :: "quadrature_rule \<Rightarrow> domain \<Rightarrow> scalar_function \<Rightarrow> real" where
  "integrate_fl ips (a, b) f =
     (let T = (\<lambda>\<xi>. fl (fl (fl (a * fl (1 - \<xi>)) / 2) + fl (fl (b * fl (1 + \<xi>)) / 2)));
          J = (\<lambda>\<xi>::real. fl (fl (b - a) / 2));
          f_hat = (\<lambda>\<xi>. fl (f (T \<xi>) * J \<xi>))
      in integrate_on_reference_element_fl ips f_hat)"

text \<open>
  \<open>weak_formulation\<close>: \<open>((p(x) * u(x)) * w(x)) + ((q(x) * du_dx(x)) * dw_dx(x))\<close>
  and \<open>(d * w(L)) + integrate(...)\<close>.
\<close>

definition weak_formulation_fl ::
  "integrator \<Rightarrow> real \<Rightarrow> scalar_function \<Rightarrow> scalar_function \<Rightarrow> scalar_function \<Rightarrow> real \<Rightarrow> real
     \<Rightarrow> bilinear_form \<times> linear_form" where
  "weak_formulation_fl integ L p q r c d =
     (let a = (\<lambda>u w du_dx dw_dx.
                 let integrand = (\<lambda>x. fl (fl (fl (p x * u x) * w x) + fl (fl (q x * du_dx x) * dw_dx x)))
                 in integ (0, L) integrand);
          l = (\<lambda>w dw_dx.
                 let integrand = (\<lambda>x. fl (r x * w x))
                 in fl (fl (d * w L) + integ (0, L) integrand))
      in (a, l))"


section \<open>Notions used to state the properties\<close>

text \<open>Mirroring a row of a rule at the origin; a rule is symmetric when mirroring
  all its rows gives the same rows up to their order.\<close>

definition reflect :: "real \<times> real \<Rightarrow> real \<times> real" where
  "reflect = (\<lambda>(\<xi>, w). (- \<xi>, w))"

definition symmetric_rule :: "quadrature_rule \<Rightarrow> bool" where
  "symmetric_rule ips \<longleftrightarrow> mset (map reflect ips) = mset ips"

text \<open>
  The discrete moments of a rule, \<open>\<Sum>k. w_k * \<xi>_k ^ m\<close>, and the moments of the
  reference interval, \<open>\<integral> \<xi> ^ m\<close> over \<open>[-1, 1]\<close>.
\<close>

definition moment :: "quadrature_rule \<Rightarrow> nat \<Rightarrow> real" where
  "moment ips m = integrate_on_reference_element ips (\<lambda>\<xi>. \<xi> ^ m)"

definition exact_moment :: "nat \<Rightarrow> real" where
  "exact_moment m = (if even m then 2 / real (Suc m) else 0)"

text \<open>
  A polynomial given by its coefficients \<open>c_0, c_1, ...\<close> (degree below the length of
  the list), and its integral over \<open>[a, b]\<close> by the antiderivative
  \<open>\<Sum>i. c_i * x ^ (i + 1) / (i + 1)\<close> (lemmas \<open>polynomial_antiderivative\<close> and
  \<open>polynomial_integral_endpoints\<close>).
\<close>

definition polynomial :: "real list \<Rightarrow> scalar_function" where
  "polynomial cs x = (\<Sum>i<length cs. cs ! i * x ^ i)"

definition polynomial_integral :: "real list \<Rightarrow> real \<Rightarrow> real \<Rightarrow> real" where
  "polynomial_integral cs a b = (\<Sum>i<length cs. cs ! i * ((b ^ Suc i - a ^ Suc i) / real (Suc i)))"

text \<open>Relative tolerance: \<open>x\<close> is within \<open>tol * |expected|\<close> of \<open>expected\<close>.\<close>

definition close_to :: "real \<Rightarrow> real \<Rightarrow> real \<Rightarrow> bool" where
  "close_to tol x expected \<longleftrightarrow> \<bar>x - expected\<bar> \<le> tol * \<bar>expected\<bar>"

section \<open>Properties of the quadrature engine\<close>

lemma foldl_add_sum_list: "foldl (+) s xs = s + sum_list (xs :: real list)"
  by (induction xs arbitrary: s) simp_all

lemma py_sum_sum_list: "py_sum xs = sum_list xs"
  by (simp add: py_sum_def foldl_add_sum_list)

lemma integrate_on_reference_element_sum_list:
  "integrate_on_reference_element ips f = (\<Sum>(\<xi>, w)\<leftarrow>ips. w * f \<xi>)"
  by (simp add: integrate_on_reference_element_def py_sum_sum_list)

lemma integrate_on_reference_element_index:
  "integrate_on_reference_element ips f
     = (\<Sum>k<length ips. snd (ips ! k) * f (fst (ips ! k)))"
proof -
  have "(\<Sum>(\<xi>, w)\<leftarrow>ips. w * f \<xi>) = (\<Sum>k<length ips. (\<lambda>(\<xi>, w). w * f \<xi>) (ips ! k))"
    by (simp add: sum_list_sum_nth atLeast0LessThan)
  then show ?thesis
    by (simp add: integrate_on_reference_element_sum_list case_prod_unfold)
qed

text \<open>
  C3.  For every rule, every function \<open>f\<close> and every domain \<open>(a, b)\<close>, the reference
  integration returns the weighted sum \<open>\<Sum>k. w_k * f \<xi>_k\<close> over the rows of the
  rule, and \<open>integrate\<close> returns the reference integration of
  \<open>f_hat \<xi> = f (T \<xi>) * (b - a) / 2\<close> with \<open>T \<xi> = a (1 - \<xi>) / 2 + b (1 + \<xi>) / 2\<close>.
\<close>

theorem C3_quadrature_formulas:
  "integrate_on_reference_element ips f
     = (\<Sum>k<length ips. snd (ips ! k) * f (fst (ips ! k)))
   \<and> integrate ips (a, b) f
     = integrate_on_reference_element ips
         (\<lambda>\<xi>. f (a * (1 - \<xi>) / 2 + b * (1 + \<xi>) / 2) * ((b - a) / 2))"
  by (simp add: integrate_on_reference_element_index)

lemma integrate_sum_list:
  "integrate ips (a, b) f
     = (\<Sum>(\<xi>, w)\<leftarrow>ips. w * (f (a * (1 - \<xi>) / 2 + b * (1 + \<xi>) / 2) * ((b - a) / 2)))"
  by (simp add: integrate_on_reference_element_sum_list)

lemma integrate_degenerate: "integrate ips (a, a) f = 0"
  unfolding integrate_sum_list by (simp add: case_prod_unfold)

lemma integrate_swap:
  assumes "symmetric_rule ips"
  shows "integrate ips (b, a) f = - integrate ips (a, b) f"
proof -
  let ?g = "\<lambda>(\<xi>, w). w * (f (a * (1 - \<xi>) / 2 + b * (1 + \<xi>) / 2) * ((b - a) / 2))"
  have summand: "w * (f (b * (1 - \<xi>) / 2 + a * (1 + \<xi>) / 2) * ((a - b) / 2)) = - ?g (reflect (\<xi>, w))"
    for \<xi> w
  proof -
    have "a * (1 - (- \<xi>)) / 2 + b * (1 + (- \<xi>)) / 2 = b * (1 - \<xi>) / 2 + a * (1 + \<xi>) / 2"
      by simp
    then have "?g (reflect (\<xi>, w)) = w * (f (b * (1 - \<xi>) / 2 + a * (1 + \<xi>) / 2) * ((b - a) / 2))"
      by (simp only: reflect_def prod.case)
    moreover have "w * (y * ((a - b) / 2)) = - (w * (y * ((b - a) / 2)))" for y
      by (simp add: algebra_simps diff_divide_distrib)
    ultimately show ?thesis by simp
  qed
  have "(\<lambda>(\<xi>, w). w * (f (b * (1 - \<xi>) / 2 + a * (1 + \<xi>) / 2) * ((a - b) / 2)))
          = (\<lambda>p. - ?g (reflect p))"
  proof (rule ext)
    fix p :: "real \<times> real"
    show "(case p of (\<xi>, w) \<Rightarrow> w * (f (b * (1 - \<xi>) / 2 + a * (1 + \<xi>) / 2) * ((a - b) / 2)))
            = - ?g (reflect p)"
      by (cases p) (simp only: prod.case summand)
  qed
  then have "integrate ips (b, a) f = (\<Sum>p\<leftarrow>ips. - ?g (reflect p))"
    by (simp only: integrate_sum_list)
  also have "\<dots> = - (\<Sum>p\<leftarrow>map reflect ips. ?g p)"
    by (simp add: uminus_sum_list_map o_def)
  also have "(\<Sum>p\<leftarrow>map reflect ips. ?g p) = sum_mset (image_mset ?g (mset (map reflect ips)))"
    by (simp only: sum_mset_sum_list [symmetric] mset_map)
  also have "\<dots> = sum_mset (image_mset ?g (mset ips))"
    using assms by (simp only: symmetric_rule_def)
  also have "\<dots> = (\<Sum>p\<leftarrow>ips. ?g p)"
    by (simp only: sum_mset_sum_list [symmetric] mset_map)
  finally show ?thesis by (simp only: integrate_sum_list)
qed

lemma integration_points_cases [consumes 1, case_names order1 order3 order5 order7]:
  assumes "integration_points k = Some ips"
  obtains "k = 1" "ips = [(0, 2)]"
    | "k = 3" "ips = [(- (577350269189625 / 10 ^ 15), 1), (577350269189625 / 10 ^ 15, 1)]"
    | "k = 5" "ips = [(- (774596669241483 / 10 ^ 15), 555555555555556 / 10 ^ 15),
                       (0, 888888888888889 / 10 ^ 15),
                       (774596669241483 / 10 ^ 15, 555555555555556 / 10 ^ 15)]"
    | "k = 7" "ips = [(- (861136311594052 / 10 ^ 15), 347854845137454 / 10 ^ 15),
                       (- (339981043584856 / 10 ^ 15), 652145154862545 / 10 ^ 15),
                       (861136311594052 / 10 ^ 15, 347854845137454 / 10 ^ 15),
                       (339981043584856 / 10 ^ 15, 652145154862545 / 10 ^ 15)]"
  using assms by (auto simp only: integration_points_def fun_upd_apply split: if_splits)

lemma tabulated_symmetric:
  assumes "integration_points k = Some ips"
  shows "symmetric_rule ips"
  using assms
  by (cases rule: integration_points_cases) (simp_all add: symmetric_rule_def reflect_def)

text \<open>
  C5 (as stated).  The claim is that a call of \<open>integrate\<close> on a domain \<open>(a, b)\<close>
  with \<open>a \<ge> b\<close> signals InvalidDomain.  On the domain \<open>(1, 0)\<close>, with the rule of
  order 1 and the constant function 1, the call returns \<open>- 1\<close>.
\<close>

theorem C5_reversed_domain_returns:
  "integrate_call [(0, 2)] (1, 0) (\<lambda>x. 1) = Returned (- 1)
   \<and> integrate_call [(0, 2)] (1, 0) (\<lambda>x. 1) \<noteq> Raised InvalidDomain"
  by (simp add: integrate_call_def integrate_on_reference_element_def py_sum_def)

text \<open>
  C5 (amended).  \<open>integrate\<close> checks nothing about its domain and signals no error:
  for every rule, every function and all endpoints \<open>a\<close>, \<open>b\<close> (also \<open>a \<ge> b\<close>)
  the call returns the number \<open>\<Sum>k. w_k * f (T \<xi>_k) * (b - a) / 2\<close>.
\<close>

theorem C5_integrate_always_returns:
  "integrate_call ips (a, b) f
     = Returned (\<Sum>k<length ips.
         snd (ips ! k)
           * (f (a * (1 - fst (ips ! k)) / 2 + b * (1 + fst (ips ! k)) / 2) * ((b - a) / 2)))"
  by (simp add: integrate_call_def integrate_on_reference_element_index)

text \<open>
  In exact arithmetic the terms of a sum may be reordered: there, swapping the endpoints
  negates the result for every symmetric rule (\<open>integrate_swap\<close>).  The order of
  the additions matters once they are rounded; see the double layer below.
\<close>

lemma exact_swap_fails_for_asymmetric_rule:
  "integrate [(1, 2)] (1, 0) (\<lambda>x. x) \<noteq> - integrate [(1, 2)] (0, 1) (\<lambda>x. x)"
  by (simp add: integrate_on_reference_element_def py_sum_def)

text \<open>
  C9.  The table has the four orders 1, 3, 5 and 7.  In each tabulated rule every
  abscissa lies in \<open>[-1, 1]\<close>, every weight is strictly positive, and the weights sum
  to 2 up to two units of the last tabulated decimal place (\<open>2 / 10 ^ 15\<close>).
\<close>

theorem C9_tabulated_rules:
  "dom integration_points = {1, 3, 5, 7}
   \<and> (integration_points k = Some ips \<longrightarrow>
        (\<forall>(\<xi>, w) \<in> set ips. - 1 \<le> \<xi> \<and> \<xi> \<le> 1 \<and> 0 < w)
        \<and> \<bar>(\<Sum>(\<xi>, w)\<leftarrow>ips. w) - 2\<bar> \<le> 2 / 10 ^ 15)"
proof -
  have "dom integration_points = {1, 3, 5, 7}"
    by (auto simp: integration_points_def split: if_splits)
  moreover have "(\<forall>(\<xi>, w) \<in> set ips. - 1 \<le> \<xi> \<and> \<xi> \<le> 1 \<and> 0 < w)
        \<and> \<bar>(\<Sum>(\<xi>, w)\<leftarrow>ips. w) - 2\<bar> \<le> 2 / 10 ^ 15"
    if "integration_points k = Some ips"
    using that by (cases rule: integration_points_cases) simp_all
  ultimately show ?thesis by blast
qed

theorem C9_tabulated_rules_witness:
  "integration_points 7
     = Some [(- (861136311594052 / 10 ^ 15), 347854845137454 / 10 ^ 15),
             (- (339981043584856 / 10 ^ 15), 652145154862545 / 10 ^ 15),
             (861136311594052 / 10 ^ 15, 347854845137454 / 10 ^ 15),
             (339981043584856 / 10 ^ 15, 652145154862545 / 10 ^ 15)]
   \<and> \<bar>(347854845137454 / 10 ^ 15 + 652145154862545 / 10 ^ 15
        + 347854845137454 / 10 ^ 15 + 652145154862545 / 10 ^ 15) - 2\<bar> \<le> (2 / 10 ^ 15 :: real)
   \<and> - 1 \<le> - (861136311594052 / 10 ^ 15 :: real) \<and> (0::real) < 347854845137454 / 10 ^ 15"
proof -
  let ?R = "[(- (861136311594052 / 10 ^ 15), 347854845137454 / 10 ^ 15),
             (- (339981043584856 / 10 ^ 15), 652145154862545 / 10 ^ 15),
             (861136311594052 / 10 ^ 15, 347854845137454 / 10 ^ 15),
             (339981043584856 / 10 ^ 15, 652145154862545 / 10 ^ 15)] :: quadrature_rule"
  have tab: "integration_points 7 = Some ?R"
    by (simp add: integration_points_def)
  from C9_tabulated_rules [of 7 ?R] tab
  have "(\<forall>(\<xi>, w) \<in> set ?R. - 1 \<le> \<xi> \<and> \<xi> \<le> 1 \<and> 0 < w)"
    and "\<bar>(\<Sum>(\<xi>, w)\<leftarrow>?R. w) - 2\<bar> \<le> 2 / 10 ^ 15"
    by blast+
  with tab show ?thesis by simp
qed

section \<open>Exactness on polynomials\<close>

text \<open>The quadrature sum is linear in the integrand, and so is \<open>integrate\<close>.\<close>

lemma reference_sum:
  "integrate_on_reference_element ips (\<lambda>\<xi>. \<Sum>m\<in>S. g m \<xi>)
     = (\<Sum>m\<in>S. integrate_on_reference_element ips (g m))"
proof (induction ips)
  case Nil
  then show ?case by (simp add: integrate_on_reference_element_sum_list)
next
  case (Cons p ips)
  obtain \<xi> w where p: "p = (\<xi>, w)" by (cases p)
  show ?case
    using Cons.IH
    by (simp add: integrate_on_reference_element_sum_list p sum_distrib_left sum.distrib)
qed

lemma reference_scale:
  "integrate_on_reference_element ips (\<lambda>\<xi>. c * g \<xi>)
     = c * integrate_on_reference_element ips g"
proof -
  have "(\<lambda>(\<xi>, w). w * (c * g \<xi>)) = (\<lambda>p. c * (case p of (\<xi>, w) \<Rightarrow> w * g \<xi>))"
    by (rule ext) (simp add: case_prod_unfold)
  then show ?thesis
    by (simp only: integrate_on_reference_element_sum_list sum_list_const_mult)
qed

text \<open>The map \<open>T\<close> written with the centre \<open>(a + b) / 2\<close> and the half length
  \<open>(b - a) / 2\<close> of the domain.\<close>

lemma integrate_affine:
  "integrate ips (a, b) f
     = integrate_on_reference_element ips
         (\<lambda>\<xi>. (b - a) / 2 * f ((a + b) / 2 + (b - a) / 2 * \<xi>))"
proof -
  have "a * (1 - \<xi>) / 2 + b * (1 + \<xi>) / 2 = (a + b) / 2 + (b - a) / 2 * \<xi>" for \<xi>
    by (simp add: field_simps)
  then show ?thesis by (simp add: mult.commute)
qed

lemma integrate_sum:
  "integrate ips (a, b) (\<lambda>x. \<Sum>i\<in>S. g i x) = (\<Sum>i\<in>S. integrate ips (a, b) (g i))"
  unfolding integrate_affine by (simp only: sum_distrib_left reference_sum)

lemma integrate_scale:
  "integrate ips (a, b) (\<lambda>x. c * g x) = c * integrate ips (a, b) g"
proof -
  have "(\<lambda>\<xi>. (b - a) / 2 * (c * g ((a + b) / 2 + (b - a) / 2 * \<xi>)))
          = (\<lambda>\<xi>. c * ((b - a) / 2 * g ((a + b) / 2 + (b - a) / 2 * \<xi>)))"
    by (rule ext) simp
  then show ?thesis unfolding integrate_affine by (simp only: reference_scale)
qed

lemma integrate_polynomial:
  "integrate ips (a, b) (polynomial cs)
     = (\<Sum>i<length cs. cs ! i * integrate ips (a, b) (\<lambda>x. x ^ i))"
proof -
  have "polynomial cs = (\<lambda>x. \<Sum>i<length cs. cs ! i * x ^ i)"
    by (rule ext) (simp add: polynomial_def)
  then show ?thesis by (simp only: integrate_sum integrate_scale)
qed

text \<open>
  By the binomial theorem, the quadrature of a monomial over \<open>(a, b)\<close> is a combination
  of the discrete moments of the rule, and its integral is the same combination of the
  moments of the reference interval.  Their difference is governed by the moment errors.
\<close>

lemma integrate_monomial:
  "integrate ips (a, b) (\<lambda>x. x ^ i)
     = (b - a) / 2 * (\<Sum>m\<le>i. of_nat (i choose m) * ((a + b) / 2) ^ (i - m) * ((b - a) / 2) ^ m
                                * moment ips m)"
proof -
  define c h where "c = (a + b) / 2" and "h = (b - a) / 2"
  have "(\<lambda>\<xi>. h * (c + h * \<xi>) ^ i)
          = (\<lambda>\<xi>. h * (\<Sum>m\<le>i. (of_nat (i choose m) * c ^ (i - m) * h ^ m) * \<xi> ^ m))"
  proof (rule ext)
    fix \<xi>
    have "(c + h * \<xi>) ^ i = (h * \<xi> + c) ^ i" by (simp add: add.commute)
    also have "\<dots> = (\<Sum>m\<le>i. of_nat (i choose m) * (h * \<xi>) ^ m * c ^ (i - m))"
      by (rule binomial_ring)
    also have "\<dots> = (\<Sum>m\<le>i. (of_nat (i choose m) * c ^ (i - m) * h ^ m) * \<xi> ^ m)"
      by (rule sum.cong [OF refl]) (simp add: power_mult_distrib)
    finally show "h * (c + h * \<xi>) ^ i
                    = h * (\<Sum>m\<le>i. (of_nat (i choose m) * c ^ (i - m) * h ^ m) * \<xi> ^ m)"
      by simp
  qed
  then have "integrate_on_reference_element ips (\<lambda>\<xi>. h * (c + h * \<xi>) ^ i)
          = h * (\<Sum>m\<le>i. of_nat (i choose m) * c ^ (i - m) * h ^ m * moment ips m)"
    by (simp only: reference_scale reference_sum moment_def)
  then show ?thesis
    unfolding integrate_affine c_def h_def .
qed

lemma exact_monomial:
  "(b ^ Suc i - a ^ Suc i) / real (Suc i)
     = (b - a) / 2 * (\<Sum>m\<le>i. of_nat (i choose m) * ((a + b) / 2) ^ (i - m) * ((b - a) / 2) ^ m
                                * exact_moment m)"
proof -
  define c h where "c = (a + b) / 2" and "h = (b - a) / 2"
  have b: "b = h + c" and a: "a = - h + c" by (simp_all add: c_def h_def field_simps)
  have "b ^ Suc i - a ^ Suc i
          = (\<Sum>m\<le>Suc i. of_nat (Suc i choose m) * (h ^ m - (- h) ^ m) * c ^ (Suc i - m))"
    unfolding a b binomial_ring
    by (simp add: sum_subtractf algebra_simps)
  also have "\<dots> = (\<Sum>m\<le>i. of_nat (Suc i choose Suc m) * (h ^ Suc m - (- h) ^ Suc m) * c ^ (i - m))"
    by (subst sum.atMost_Suc_shift) simp
  also have "\<dots> = (\<Sum>m\<le>i. real (Suc i) * (h * (of_nat (i choose m) * c ^ (i - m) * h ^ m * exact_moment m)))"
  proof (rule sum.cong [OF refl])
    fix m
    have "real (Suc m) * real (Suc i choose Suc m) = real (Suc i) * real (i choose m)"
      by (simp only: of_nat_mult [symmetric] Suc_times_binomial)
    then have ch: "real (Suc i choose Suc m) = real (Suc i) * real (i choose m) / real (Suc m)"
      by (simp add: field_simps)
    have nz: "real (Suc m) \<noteq> 0" by simp
    have "real (Suc m) * exact_moment m = (if even m then 2 else 0)"
      using nz by (simp add: exact_moment_def del: of_nat_Suc)
    then have pm: "h ^ Suc m - (- h) ^ Suc m = h * h ^ m * (real (Suc m) * exact_moment m)"
      by (cases "even m") simp_all
    show "of_nat (Suc i choose Suc m) * (h ^ Suc m - (- h) ^ Suc m) * c ^ (i - m)
            = real (Suc i) * (h * (of_nat (i choose m) * c ^ (i - m) * h ^ m * exact_moment m))"
      unfolding ch pm by simp
  qed
  also have "\<dots> = real (Suc i) * (h * (\<Sum>m\<le>i. of_nat (i choose m) * c ^ (i - m) * h ^ m * exact_moment m))"
    by (simp only: sum_distrib_left)
  finally show ?thesis
    by (simp add: c_def h_def)
qed

text \<open>
  Moments of the tabulated rules.  The rules are symmetric, so the odd moments vanish
  and the even ones are computed on the positive abscissae.
\<close>

lemma moment_sym2:
  "moment [(- x, w), (x, w)] m = (if even m then 2 * (w * x ^ m) else 0)"
  by (simp add: moment_def integrate_on_reference_element_sum_list)

lemma moment_sym3:
  "moment [(- x, w), (0, w0), (x, w)] m = (if even m then 2 * (w * x ^ m) else 0) + w0 * 0 ^ m"
  by (simp add: moment_def integrate_on_reference_element_sum_list)

lemma moment_sym4:
  "moment [(- x1, w1), (- x2, w2), (x1, w1), (x2, w2)] m
     = (if even m then 2 * (w1 * x1 ^ m + w2 * x2 ^ m) else 0)"
  by (simp add: moment_def integrate_on_reference_element_sum_list algebra_simps)

lemma scaled4:
  fixes D :: real
  shows "2 * (W1 / D * (X1 / D) ^ m + W2 / D * (X2 / D) ^ m)
           = 2 * (W1 * X1 ^ m + W2 * X2 ^ m) / D ^ Suc m"
  by (simp add: power_divide add_divide_distrib)

lemma le7_cases:
  assumes "m \<le> (7::nat)"
  obtains (m0) "m = 0" | (m1) "m = 1" | (m2) "m = 2" | (m3) "m = 3"
    | (m4) "m = 4" | (m5) "m = 5" | (m6) "m = 6" | (m7) "m = 7"
  using assms by linarith

lemma rule1_moments:
  assumes "m \<le> 1"
  shows "moment [(0, 2)] m = exact_moment m"
proof -
  from assms consider "m = 0" | "m = 1" by linarith
  then show ?thesis
    by cases (simp_all add: moment_def integrate_on_reference_element_sum_list exact_moment_def)
qed

lemma rule3_moments:
  assumes "m \<le> 3"
  shows "\<bar>moment [(- (577350269189625 / 10 ^ 15), 1), (577350269189625 / 10 ^ 15, 1)] m
           - exact_moment m\<bar> \<le> 2 / 10 ^ 15"
proof -
  from assms consider "m = 0" | "m = 1" | "m = 2" | "m = 3" by linarith
  then show ?thesis
    by cases (simp_all add: moment_sym2 exact_moment_def power_divide)
qed

lemma rule5_moments:
  assumes "m \<le> 5"
  shows "\<bar>moment [(- (774596669241483 / 10 ^ 15), 555555555555556 / 10 ^ 15),
                   (0, 888888888888889 / 10 ^ 15),
                   (774596669241483 / 10 ^ 15, 555555555555556 / 10 ^ 15)] m
           - exact_moment m\<bar> \<le> 2 / 10 ^ 15"
proof -
  from assms consider "m = 0" | "m = 1" | "m = 2" | "m = 3" | "m = 4" | "m = 5" by linarith
  then show ?thesis
    by cases (simp_all add: moment_sym3 exact_moment_def power_divide)
qed

lemma rule7_moment6:
  "moment [(- (861136311594052 / 10 ^ 15), 347854845137454 / 10 ^ 15),
           (- (339981043584856 / 10 ^ 15), 652145154862545 / 10 ^ 15),
           (861136311594052 / 10 ^ 15, 347854845137454 / 10 ^ 15),
           (339981043584856 / 10 ^ 15, 652145154862545 / 10 ^ 15)] 6
     = 285714285714284680625986453170132333851276048309100195727562585688674365558229329034094005485375581437952 / (10 ^ 15) ^ Suc 6"
proof -
  have "(2 * (347854845137454 * 861136311594052 ^ 6 + 652145154862545 * 339981043584856 ^ 6) :: real)
          = 285714285714284680625986453170132333851276048309100195727562585688674365558229329034094005485375581437952"
    by simp
  then show ?thesis
    by (simp only: moment_sym4 scaled4 even_numeral if_True)
qed

lemma rule7_moments:
  assumes "m \<le> 7"
  shows "- (2 / 10 ^ 15)
           \<le> moment [(- (861136311594052 / 10 ^ 15), 347854845137454 / 10 ^ 15),
                      (- (339981043584856 / 10 ^ 15), 652145154862545 / 10 ^ 15),
                      (861136311594052 / 10 ^ 15, 347854845137454 / 10 ^ 15),
                      (339981043584856 / 10 ^ 15, 652145154862545 / 10 ^ 15)] m - exact_moment m
         \<and> moment [(- (861136311594052 / 10 ^ 15), 347854845137454 / 10 ^ 15),
                      (- (339981043584856 / 10 ^ 15), 652145154862545 / 10 ^ 15),
                      (861136311594052 / 10 ^ 15, 347854845137454 / 10 ^ 15),
                      (339981043584856 / 10 ^ 15, 652145154862545 / 10 ^ 15)] m - exact_moment m \<le> 0"
  using assms
proof (cases rule: le7_cases)
  case m6
  show ?thesis unfolding m6 rule7_moment6 by (simp add: exact_moment_def)
qed (simp_all add: moment_sym4 exact_moment_def power_divide)

text \<open>The error on a monomial, and on a polynomial, from a bound on the moment errors.\<close>

lemma abs_centre_radius: "\<bar>(a + b) / 2\<bar> + \<bar>(b - a) / 2\<bar> = max \<bar>a\<bar> \<bar>b :: real\<bar>"
  by (simp add: max_def abs_if field_simps)

lemma monomial_difference:
  "integrate ips (a, b) (\<lambda>x. x ^ i) - (b ^ Suc i - a ^ Suc i) / real (Suc i)
     = (b - a) / 2 * (\<Sum>m\<le>i. of_nat (i choose m) * ((a + b) / 2) ^ (i - m) * ((b - a) / 2) ^ m
                                * (moment ips m - exact_moment m))"
  by (simp only: integrate_monomial exact_monomial right_diff_distrib sum_subtractf)

lemma monomial_error:
  assumes "\<And>m. m \<le> i \<Longrightarrow> \<bar>moment ips m - exact_moment m\<bar> \<le> \<epsilon>"
  shows "\<bar>integrate ips (a, b) (\<lambda>x. x ^ i) - (b ^ Suc i - a ^ Suc i) / real (Suc i)\<bar>
           \<le> \<bar>b - a\<bar> / 2 * \<epsilon> * (max \<bar>a\<bar> \<bar>b\<bar>) ^ i"
proof -
  define c h where "c = (a + b) / 2" and "h = (b - a) / 2"
  have "\<bar>\<Sum>m\<le>i. of_nat (i choose m) * c ^ (i - m) * h ^ m * (moment ips m - exact_moment m)\<bar>
          \<le> (\<Sum>m\<le>i. \<bar>of_nat (i choose m) * c ^ (i - m) * h ^ m * (moment ips m - exact_moment m)\<bar>)"
    by (rule sum_abs)
  also have "\<dots> \<le> (\<Sum>m\<le>i. (of_nat (i choose m) * \<bar>h\<bar> ^ m * \<bar>c\<bar> ^ (i - m)) * \<epsilon>)"
  proof (rule sum_mono)
    fix m assume "m \<in> {..i}"
    then have "\<bar>moment ips m - exact_moment m\<bar> \<le> \<epsilon>" using assms by simp
    then have "(of_nat (i choose m) * \<bar>h\<bar> ^ m * \<bar>c\<bar> ^ (i - m)) * \<bar>moment ips m - exact_moment m\<bar>
                 \<le> (of_nat (i choose m) * \<bar>h\<bar> ^ m * \<bar>c\<bar> ^ (i - m)) * \<epsilon>"
      by (intro mult_left_mono) simp_all
    then show "\<bar>of_nat (i choose m) * c ^ (i - m) * h ^ m * (moment ips m - exact_moment m)\<bar>
                 \<le> (of_nat (i choose m) * \<bar>h\<bar> ^ m * \<bar>c\<bar> ^ (i - m)) * \<epsilon>"
      by (simp add: abs_mult power_abs mult_ac)
  qed
  also have "\<dots> = (\<bar>h\<bar> + \<bar>c\<bar>) ^ i * \<epsilon>"
    by (simp only: binomial_ring sum_distrib_right)
  also have "\<bar>h\<bar> + \<bar>c\<bar> = max \<bar>a\<bar> \<bar>b\<bar>"
    using abs_centre_radius [of a b] by (simp add: c_def h_def)
  finally have s: "\<bar>\<Sum>m\<le>i. of_nat (i choose m) * c ^ (i - m) * h ^ m * (moment ips m - exact_moment m)\<bar>
                     \<le> (max \<bar>a\<bar> \<bar>b\<bar>) ^ i * \<epsilon>" .
  have "\<bar>integrate ips (a, b) (\<lambda>x. x ^ i) - (b ^ Suc i - a ^ Suc i) / real (Suc i)\<bar>
          = \<bar>h\<bar> * \<bar>\<Sum>m\<le>i. of_nat (i choose m) * c ^ (i - m) * h ^ m * (moment ips m - exact_moment m)\<bar>"
    by (simp only: monomial_difference abs_mult c_def h_def)
  also have "\<dots> \<le> \<bar>h\<bar> * ((max \<bar>a\<bar> \<bar>b\<bar>) ^ i * \<epsilon>)"
    using s by (intro mult_left_mono) simp_all
  finally show ?thesis by (simp add: h_def mult_ac)
qed

lemma tabulated_moments:
  assumes "integration_points k = Some ips" "m \<le> nat k"
  shows "\<bar>moment ips m - exact_moment m\<bar> \<le> 2 / 10 ^ 15"
proof -
  consider "k = 1" "ips = [(0, 2)]"
    | "k = 3" "ips = [(- (577350269189625 / 10 ^ 15), 1), (577350269189625 / 10 ^ 15, 1)]"
    | "k = 5" "ips = [(- (774596669241483 / 10 ^ 15), 555555555555556 / 10 ^ 15),
                       (0, 888888888888889 / 10 ^ 15),
                       (774596669241483 / 10 ^ 15, 555555555555556 / 10 ^ 15)]"
    | "k = 7" "ips = [(- (861136311594052 / 10 ^ 15), 347854845137454 / 10 ^ 15),
                       (- (339981043584856 / 10 ^ 15), 652145154862545 / 10 ^ 15),
                       (861136311594052 / 10 ^ 15, 347854845137454 / 10 ^ 15),
                       (339981043584856 / 10 ^ 15, 652145154862545 / 10 ^ 15)]"
    using assms(1) by (auto simp only: integration_points_def fun_upd_apply split: if_splits)
  then show ?thesis
  proof cases
    case 1
    with assms(2) rule1_moments [of m] show ?thesis by simp
  next
    case 2
    with assms(2) rule3_moments [of m] show ?thesis by simp
  next
    case 3
    with assms(2) rule5_moments [of m] show ?thesis by simp
  next
    case 4
    from assms(2) have "m \<le> 7" unfolding 4 by simp
    from rule7_moments [OF this] show ?thesis unfolding 4 by linarith
  qed
qed

lemma polynomial_difference:
  "integrate ips (a, b) (polynomial cs) - polynomial_integral cs a b
     = (\<Sum>i<length cs. cs ! i * (integrate ips (a, b) (\<lambda>x. x ^ i)
                                     - (b ^ Suc i - a ^ Suc i) / real (Suc i)))"
  by (simp only: integrate_polynomial polynomial_integral_def right_diff_distrib sum_subtractf)

lemma polynomial_error:
  assumes "integration_points k = Some ips" "length cs \<le> nat k + 1"
  shows "\<bar>integrate ips (a, b) (polynomial cs) - polynomial_integral cs a b\<bar>
           \<le> 2 / 10 ^ 15 * (\<bar>b - a\<bar> / 2 * (\<Sum>i<length cs. \<bar>cs ! i\<bar> * (max \<bar>a\<bar> \<bar>b\<bar>) ^ i))"
proof -
  have "\<bar>integrate ips (a, b) (polynomial cs) - polynomial_integral cs a b\<bar>
          \<le> (\<Sum>i<length cs. \<bar>cs ! i * (integrate ips (a, b) (\<lambda>x. x ^ i)
                                     - (b ^ Suc i - a ^ Suc i) / real (Suc i))\<bar>)"
    unfolding polynomial_difference by (rule sum_abs)
  also have "\<dots> \<le> (\<Sum>i<length cs. \<bar>cs ! i\<bar> * (\<bar>b - a\<bar> / 2 * (2 / 10 ^ 15) * (max \<bar>a\<bar> \<bar>b\<bar>) ^ i))"
  proof (rule sum_mono)
    fix i assume "i \<in> {..<length cs}"
    with assms(2) have i: "i \<le> nat k" by simp
    have "\<bar>integrate ips (a, b) (\<lambda>x. x ^ i) - (b ^ Suc i - a ^ Suc i) / real (Suc i)\<bar>
            \<le> \<bar>b - a\<bar> / 2 * (2 / 10 ^ 15) * (max \<bar>a\<bar> \<bar>b\<bar>) ^ i"
    proof (rule monomial_error)
      fix m assume "m \<le> i"
      with i have "m \<le> nat k" by simp
      with assms(1) show "\<bar>moment ips m - exact_moment m\<bar> \<le> 2 / 10 ^ 15"
        by (rule tabulated_moments)
    qed
    then show "\<bar>cs ! i * (integrate ips (a, b) (\<lambda>x. x ^ i) - (b ^ Suc i - a ^ Suc i) / real (Suc i))\<bar>
                 \<le> \<bar>cs ! i\<bar> * (\<bar>b - a\<bar> / 2 * (2 / 10 ^ 15) * (max \<bar>a\<bar> \<bar>b\<bar>) ^ i)"
      unfolding abs_mult by (intro mult_left_mono) simp_all
  qed
  also have "\<dots> = 2 / 10 ^ 15 * (\<bar>b - a\<bar> / 2 * (\<Sum>i<length cs. \<bar>cs ! i\<bar> * (max \<bar>a\<bar> \<bar>b\<bar>) ^ i))"
    unfolding sum_distrib_left by (rule sum.cong [OF refl]) simp
  finally show ?thesis .
qed

text \<open>
  The size condition of the error bound holds, for instance, for endpoints in
  \<open>[-1, 1]\<close> and at most eight coefficients of magnitude up to 6000.
\<close>

lemma modest_magnitude:
  fixes a b :: real and cs :: "real list"
  assumes "- 1 \<le> a" "a < b" "b \<le> 1" "length cs \<le> 8" "\<And>i. i < length cs \<Longrightarrow> \<bar>cs ! i\<bar> \<le> 6000"
  shows "(b - a) / 2 * (\<Sum>i<length cs. \<bar>cs ! i\<bar> * (max \<bar>a\<bar> \<bar>b\<bar>) ^ i) < 50000"
proof -
  have R: "0 \<le> max \<bar>a\<bar> \<bar>b\<bar>" "max \<bar>a\<bar> \<bar>b\<bar> \<le> 1"
    using assms(1-3) by (auto simp: max_def abs_if)
  have "(\<Sum>i<length cs. \<bar>cs ! i\<bar> * (max \<bar>a\<bar> \<bar>b\<bar>) ^ i) \<le> (\<Sum>i<length cs. 6000 * 1)"
  proof (rule sum_mono)
    fix i assume "i \<in> {..<length cs}"
    then have "\<bar>cs ! i\<bar> \<le> 6000" using assms(5) by simp
    moreover have "(max \<bar>a\<bar> \<bar>b\<bar>) ^ i \<le> 1" using R by (rule power_le_one)
    ultimately show "\<bar>cs ! i\<bar> * (max \<bar>a\<bar> \<bar>b\<bar>) ^ i \<le> 6000 * 1"
      using R(1) by (intro mult_mono) simp_all
  qed
  also have "\<dots> = 6000 * real (length cs)" by simp
  also have "\<dots> \<le> 48000" using assms(4) by simp
  finally have S: "(\<Sum>i<length cs. \<bar>cs ! i\<bar> * (max \<bar>a\<bar> \<bar>b\<bar>) ^ i) \<le> 48000" .
  have S0: "0 \<le> (\<Sum>i<length cs. \<bar>cs ! i\<bar> * (max \<bar>a\<bar> \<bar>b\<bar>) ^ i)"
    using R(1) by (intro sum_nonneg mult_nonneg_nonneg) simp_all
  have h: "0 \<le> (b - a) / 2" "(b - a) / 2 \<le> 1" using assms(1-3) by simp_all
  have "(b - a) / 2 * (\<Sum>i<length cs. \<bar>cs ! i\<bar> * (max \<bar>a\<bar> \<bar>b\<bar>) ^ i) \<le> 1 * 48000"
    using h S S0 by (intro mult_mono) simp_all
  then show ?thesis by simp
qed

text \<open>\<open>polynomial_integral\<close> is the difference of an antiderivative at the endpoints.\<close>

lemma monomial_antiderivative:
  "((\<lambda>x. c * (x ^ Suc i / real (Suc i))) has_real_derivative c * x ^ i) (at x)"
proof -
  have nz: "real (Suc i) \<noteq> 0" by simp
  have "((\<lambda>x. x ^ Suc i) has_real_derivative real (Suc i) * x ^ (Suc i - Suc 0)) (at x)"
    by (rule DERIV_pow)
  then have "((\<lambda>x. x ^ Suc i / real (Suc i)) has_real_derivative
                real (Suc i) * x ^ (Suc i - Suc 0) / real (Suc i)) (at x)"
    by (rule DERIV_cdivide)
  then have "((\<lambda>x. c * (x ^ Suc i / real (Suc i))) has_real_derivative
                c * (real (Suc i) * x ^ (Suc i - Suc 0) / real (Suc i))) (at x)"
    by (rule DERIV_cmult)
  moreover have "real (Suc i) * x ^ (Suc i - Suc 0) / real (Suc i) = x ^ i"
    using nz by (simp del: of_nat_Suc)
  ultimately show ?thesis by simp
qed

lemma polynomial_antiderivative:
  "((\<lambda>x. \<Sum>i<length cs. cs ! i * (x ^ Suc i / real (Suc i))) has_real_derivative polynomial cs x) (at x)"
  unfolding polynomial_def by (rule DERIV_sum) (rule monomial_antiderivative)

lemma polynomial_integral_endpoints:
  "polynomial_integral cs a b
     = (\<Sum>i<length cs. cs ! i * (b ^ Suc i / real (Suc i)))
       - (\<Sum>i<length cs. cs ! i * (a ^ Suc i / real (Suc i)))"
  by (simp only: polynomial_integral_def sum_subtractf [symmetric] right_diff_distrib [symmetric]
      diff_divide_distrib)

text \<open>
  The rule of order 7 on \<open>(0, 10)\<close>: all its moment errors are \<open>\<le> 0\<close> and the one of
  order 0 is \<open>- 2 / 10 ^ 15\<close>, so the quadrature of \<open>x ^ 7\<close> falls short of the integral
  by at least \<open>5 ^ 8 * 2 / 10 ^ 15\<close>.
\<close>

lemma sum_le_first:
  fixes f :: "nat \<Rightarrow> real"
  assumes "\<And>m. f (Suc m) \<le> 0"
  shows "(\<Sum>m\<le>n. f m) \<le> f 0"
  using sum_nonpos [of "{..<n}" "\<lambda>m. f (Suc m)"] assms by (simp add: sum.atMost_shift)

lemma rule7_degree7_on_0_10:
  "integrate [(- (861136311594052 / 10 ^ 15), 347854845137454 / 10 ^ 15),
              (- (339981043584856 / 10 ^ 15), 652145154862545 / 10 ^ 15),
              (861136311594052 / 10 ^ 15, 347854845137454 / 10 ^ 15),
              (339981043584856 / 10 ^ 15, 652145154862545 / 10 ^ 15)] (0, 10) (\<lambda>x. x ^ 7)
     - (10 ^ Suc 7 - 0 ^ Suc 7) / real (Suc 7) \<le> - (78125 / 10 ^ 14)"
proof -
  let ?R = "[(- (861136311594052 / 10 ^ 15), 347854845137454 / 10 ^ 15),
              (- (339981043584856 / 10 ^ 15), 652145154862545 / 10 ^ 15),
              (861136311594052 / 10 ^ 15, 347854845137454 / 10 ^ 15),
              (339981043584856 / 10 ^ 15, 652145154862545 / 10 ^ 15 :: real)]"
  define \<delta> where "\<delta> m = moment ?R m - exact_moment m" for m
  define f where "f m = real (7 choose m) * ((0 + 10) / 2) ^ (7 - m) * ((10 - 0) / 2) ^ m * \<delta> m" for m
  have \<delta>0: "\<delta> 0 = - (2 / 10 ^ 15)"
    by (simp add: \<delta>_def moment_sym4 exact_moment_def)
  have tail: "f (Suc m) \<le> 0" for m
  proof (cases "Suc m \<le> 7")
    case True
    from rule7_moments [OF True] have "\<delta> (Suc m) \<le> 0" by (simp add: \<delta>_def)
    then show ?thesis unfolding f_def by (intro mult_nonneg_nonpos) simp_all
  next
    case False
    then have z: "real (7 choose Suc m) = 0" by (simp add: binomial_eq_0)
    show ?thesis unfolding f_def z by simp
  qed
  have "integrate ?R (0, 10) (\<lambda>x. x ^ 7) - (10 ^ Suc 7 - 0 ^ Suc 7) / real (Suc 7)
          = (10 - 0) / 2 * (\<Sum>m\<le>7. f m)"
    unfolding f_def \<delta>_def by (rule monomial_difference)
  also have "\<dots> \<le> (10 - 0) / 2 * f 0"
    using sum_le_first [of f 7, OF tail] by (intro mult_left_mono) simp_all
  also have "\<dots> = - (78125 / 10 ^ 14)"
    by (simp add: f_def \<delta>0)
  finally show ?thesis .
qed

lemma degree7_monomial: "polynomial [0, 0, 0, 0, 0, 0, 0, 1] = (\<lambda>x. x ^ 7)"
  by (rule ext) (simp add: polynomial_def lessThan_Suc eval_nat_numeral)

text \<open>
  C6 (as stated).  The claim is an absolute error below \<open>10^-10\<close> for every tabulated
  order \<open>k\<close>, every polynomial of degree at most \<open>k\<close> and every interval of modest
  magnitude.  On the interval \<open>[0, 10]\<close> of the worked example, with the rule of
  order 7 and the polynomial \<open>x^7\<close>, the error is at least \<open>7.8 * 10^-10\<close>: the
  weights of the rule sum to \<open>2 - 2 * 10^-15\<close>.
\<close>

theorem C6_fails_on_0_10:
  "\<not> \<bar>integrate (the (integration_points 7)) (0, 10) (polynomial [0, 0, 0, 0, 0, 0, 0, 1])
        - polynomial_integral [0, 0, 0, 0, 0, 0, 0, 1] 0 10\<bar> < 1 / 10 ^ 10"
proof -
  have exact: "polynomial_integral [0, 0, 0, 0, 0, 0, 0, 1] 0 10 = (10 ^ Suc 7 - 0 ^ Suc 7) / real (Suc 7)"
    by (simp add: polynomial_integral_def lessThan_Suc eval_nat_numeral)
  have tab: "the (integration_points 7)
               = [(- (861136311594052 / 10 ^ 15), 347854845137454 / 10 ^ 15),
                  (- (339981043584856 / 10 ^ 15), 652145154862545 / 10 ^ 15),
                  (861136311594052 / 10 ^ 15, 347854845137454 / 10 ^ 15),
                  (339981043584856 / 10 ^ 15, 652145154862545 / 10 ^ 15)]"
    by (simp only: integration_points_def fun_upd_apply simp_thms if_True option.sel)
  have far: "\<not> \<bar>x\<bar> < 1 / 10 ^ 10" if "x \<le> - (78125 / 10 ^ 14)" for x :: real
    using that by simp
  show ?thesis
    unfolding tab degree7_monomial exact by (rule far) (rule rule7_degree7_on_0_10)
qed

text \<open>
  C6 (amended).  For every tabulated order \<open>k\<close>, every polynomial
  \<open>\<Sum>i. c_i x^i\<close> of degree at most \<open>k\<close> and every interval \<open>a < b\<close> with
  \<open>(b - a) / 2 * \<Sum>i. |c_i| * max(|a|, |b|)^i < 50000\<close>, the result of
  \<open>integrate\<close> differs from the integral of the polynomial by less than \<open>10^-10\<close>
  (in exact arithmetic over the tabulated decimals).
\<close>

theorem C6_exactness_bounded:
  assumes "integration_points k = Some ips" and "length cs \<le> nat k + 1" and "a < b"
    and "(b - a) / 2 * (\<Sum>i<length cs. \<bar>cs ! i\<bar> * (max \<bar>a\<bar> \<bar>b\<bar>) ^ i) < 50000"
  shows "\<bar>integrate ips (a, b) (polynomial cs) - polynomial_integral cs a b\<bar> < 1 / 10 ^ 10"
proof -
  let ?X = "(b - a) / 2 * (\<Sum>i<length cs. \<bar>cs ! i\<bar> * (max \<bar>a\<bar> \<bar>b\<bar>) ^ i)"
  have "\<bar>integrate ips (a, b) (polynomial cs) - polynomial_integral cs a b\<bar> \<le> 2 / 10 ^ 15 * ?X"
    using polynomial_error [OF assms(1,2), of a b] assms(3) by simp
  also have "\<dots> < 2 / 10 ^ 15 * 50000"
    using assms(4) by (intro mult_strict_left_mono) simp_all
  finally show ?thesis by simp
qed

theorem C6_exactness_bounded_witness:
  "integration_points 3
     = Some [(- (577350269189625 / 10 ^ 15), 1), (577350269189625 / 10 ^ 15, 1)]
   \<and> length [1, 2, 3 :: real] \<le> nat 3 + 1
   \<and> (0::real) < 1
   \<and> (1 - 0) / 2 * (\<Sum>i<length [1, 2, 3 :: real]. \<bar>[1, 2, 3] ! i\<bar> * (max \<bar>0\<bar> \<bar>1\<bar>) ^ i)
         < (50000 :: real)
   \<and> \<bar>integrate [(- (577350269189625 / 10 ^ 15), 1), (577350269189625 / 10 ^ 15, 1)] (0, 1)
          (polynomial [1, 2, 3])
        - polynomial_integral [1, 2, 3] 0 1\<bar> < 1 / 10 ^ 10"
proof -
  let ?R = "[(- (577350269189625 / 10 ^ 15), 1), (577350269189625 / 10 ^ 15, 1)] :: quadrature_rule"
  have h1: "integration_points 3 = Some ?R"
    by (simp add: integration_points_def)
  have h2: "length [1, 2, 3 :: real] \<le> nat 3 + 1" by simp
  have h3: "(0::real) < 1" by simp
  have h4: "(1 - 0) / 2 * (\<Sum>i<length [1, 2, 3 :: real]. \<bar>[1, 2, 3] ! i\<bar> * (max \<bar>0\<bar> \<bar>1\<bar>) ^ i)
              < (50000 :: real)"
    by (simp add: lessThan_Suc eval_nat_numeral)
  from C6_exactness_bounded [OF h1 h2 h3 h4] h1 h2 h3 h4 show ?thesis by blast
qed

section \<open>Rounding to doubles\<close>

lemma round_half_even_of_int [simp]: "round_half_even (of_int n) = n"
  by (simp add: round_half_even_def)


lemma round_half_even_near: "\<bar>of_int (round_half_even y) - y\<bar> \<le> 1 / 2"
  unfolding round_half_even_def Let_def by (auto simp: abs_if) linarith+

lemma exponent_bounds:
  assumes "x \<noteq> 0"
  shows "2 powi exponent x \<le> \<bar>x\<bar>" "\<bar>x\<bar> < 2 powi (exponent x + 1)"
proof -
  have pos: "0 < \<bar>x\<bar>" using assms by simp
  have "2 powr real_of_int (exponent x) \<le> \<bar>x\<bar> \<and> \<bar>x\<bar> < 2 powr (real_of_int (exponent x) + 1)"
    using floor_log_eq_powr_iff [OF pos, of 2 "exponent x"] by (simp add: exponent_def)
  moreover have "2 powr (real_of_int (exponent x) + 1) = 2 powr real_of_int (exponent x + 1)"
    by simp
  ultimately show "2 powi exponent x \<le> \<bar>x\<bar>" "\<bar>x\<bar> < 2 powi (exponent x + 1)"
    by (simp_all only: powr_real_of_int' [of 2, simplified])
qed

lemma exponent_eq:
  assumes "2 powi e \<le> \<bar>x\<bar>" "\<bar>x\<bar> < 2 powi (e + 1)"
  shows "exponent x = e"
proof -
  have pos: "0 < \<bar>x\<bar>" using assms(1) by (smt (verit) zero_less_power_int)
  have "2 powr real_of_int e \<le> \<bar>x\<bar> \<and> \<bar>x\<bar> < 2 powr (real_of_int e + 1)"
    using assms powr_real_of_int' [of 2 e] powr_real_of_int' [of 2 "e + 1"] by simp
  then show ?thesis
    using floor_log_eq_powr_iff [OF pos, of 2 e] by (simp add: exponent_def)
qed

lemma quantum_pos: "0 < quantum x"
  by (simp add: quantum_def)


lemma round_half_even_zero [simp]: "round_half_even 0 = 0"
  using round_half_even_of_int [of 0] by simp

lemma fl_zero: "fl 0 = 0"
  by (simp add: fl_def)


lemma fl_eval:
  assumes "2 powi e \<le> \<bar>x\<bar>" "\<bar>x\<bar> < 2 powi (e + 1)" "- 1022 \<le> e"
  shows "fl x = of_int (round_half_even (x / 2 powi (e - 52))) * 2 powi (e - 52)"
proof -
  have "exponent x = e" using assms(1,2) by (rule exponent_eq)
  moreover from assms(3) have "max (e - 52) (- 1074) = e - 52" by linarith
  ultimately have "quantum x = 2 powi (e - 52)" by (simp only: quantum_def)
  then show ?thesis by (simp only: fl_def)
qed

lemma fl_eval_subnormal:
  assumes "\<bar>x\<bar> < 2 powi (- 1022)"
  shows "fl x = of_int (round_half_even (x / 2 powi (- 1074))) * 2 powi (- 1074)"
proof (cases "x = 0")
  case True
  then show ?thesis by (simp add: fl_zero)
next
  case False
  have "exponent x < - 1022"
  proof (rule ccontr)
    assume "\<not> exponent x < - 1022"
    then have "- 1022 \<le> exponent x" by simp
    then have "(2::real) powi (- 1022) \<le> 2 powi exponent x"
      by (rule power_int_increasing) simp
    with exponent_bounds(1) [OF False] assms show False by linarith
  qed
  then have "max (exponent x - 52) (- 1074) = - 1074" by linarith
  then have "quantum x = 2 powi (- 1074)" by (simp only: quantum_def)
  then show ?thesis by (simp only: fl_def)
qed

text \<open>Every \<open>n * 2 ^ k\<close> with \<open>|n| \<le> 2 ^ 53\<close> and \<open>k \<ge> - 1074\<close> is a fixed point of \<open>fl\<close>,
  and so is every value of \<open>fl\<close>.\<close>

lemma representable:
  assumes "\<bar>n\<bar> \<le> 2 ^ 53" "- 1074 \<le> k"
  shows "fl (of_int n * 2 powi k) = of_int n * 2 powi k"
proof (cases "n = 0")
  case True
  then show ?thesis by (simp add: fl_zero)
next
  case False
  define y :: real where "y = of_int n * 2 powi k"
  define m where "m = max (exponent y - 52) (- 1074)"
  have y0: "y \<noteq> 0" using False by (simp add: y_def)
  have absy: "\<bar>y\<bar> = of_int \<bar>n\<bar> * 2 powi k" by (simp add: y_def abs_mult)
  have q: "quantum y = 2 powi m" by (simp add: quantum_def m_def)
  have "\<exists>j. y / 2 powi m = of_int j"
  proof (cases "m \<le> k")
    case True
    have "y / 2 powi m = of_int n * 2 powi (k - m)"
      by (simp add: y_def power_int_diff)
    also have "\<dots> = of_int n * 2 ^ nat (k - m)"
      using True by (simp add: power_int_def)
    also have "\<dots> = of_int (n * 2 ^ nat (k - m))" by simp
    finally show ?thesis by blast
  next
    case False
    then have "k < max (exponent y - 52) (- 1074)" by (simp only: m_def not_le)
    with assms(2) have e: "exponent y - 52 > k" by linarith
    with assms(2) have "max (exponent y - 52) (- 1074) = exponent y - 52" by linarith
    then have m: "m = exponent y - 52" by (simp only: m_def)
    have "2 powi (k + 53) \<le> (2::real) powi exponent y"
      using e by (intro power_int_increasing) simp_all
    also have "\<dots> \<le> \<bar>y\<bar>" by (rule exponent_bounds(1) [OF y0])
    finally have "(2::real) powi (k + 53) \<le> of_int \<bar>n\<bar> * 2 powi k" by (simp only: absy)
    then have "(2::real) ^ 53 * 2 powi k \<le> of_int \<bar>n\<bar> * 2 powi k"
      by (simp add: power_int_add mult.commute)
    then have "(2::real) ^ 53 \<le> of_int \<bar>n\<bar>" by simp
    then have "(2::int) ^ 53 \<le> \<bar>n\<bar>" by (metis of_int_le_iff of_int_numeral of_int_power)
    with assms(1) have n: "\<bar>n\<bar> = 2 ^ 53" by simp
    then have absy': "\<bar>y\<bar> = 2 powi (k + 53)"
      by (simp add: absy power_int_add mult.commute)
    have "exponent y = k + 53"
      by (rule exponent_eq) (simp_all add: absy' power_int_add)
    then have mk: "m = k + 1" by (simp add: m)
    have "y / 2 powi m = of_int n * 2 powi (k - m)"
      by (simp add: y_def power_int_diff)
    also have "\<dots> = of_int n / 2" by (simp add: mk power_int_minus field_simps)
    also have "\<dots> = of_int (n div 2)"
    proof -
      have "even n" using n by (metis even_abs_add_iff even_add even_numeral even_power zero_less_numeral)
      then show ?thesis by (metis real_of_int_div dvd_def mult.commute of_int_numeral nonzero_mult_div_cancel_left zero_neq_numeral)
    qed
    finally show ?thesis by blast
  qed
  then obtain j where j: "y / 2 powi m = of_int j" by blast
  then have "fl y = of_int j * 2 powi m" by (simp add: fl_def q)
  also have "\<dots> = y" using j by (simp add: field_simps)
  finally show ?thesis by (simp add: y_def)
qed

lemma round_half_even_between: "\<lfloor>y\<rfloor> \<le> round_half_even y" "round_half_even y \<le> \<lceil>y\<rceil>"
proof -
  show "\<lfloor>y\<rfloor> \<le> round_half_even y"
    by (simp add: round_half_even_def Let_def)
  have "\<lfloor>y\<rfloor> + 1 \<le> \<lceil>y\<rceil>" if "0 < y - of_int \<lfloor>y\<rfloor>"
    using that by (simp add: ceiling_altdef)
  then show "round_half_even y \<le> \<lceil>y\<rceil>"
    unfolding round_half_even_def Let_def
    by (auto simp: ceiling_altdef split: if_splits)
qed

lemma round_half_even_bound:
  assumes "\<bar>y\<bar> \<le> of_int N"
  shows "\<bar>round_half_even y\<bar> \<le> N"
proof -
  have "- N \<le> \<lfloor>y\<rfloor>" using assms by (simp add: le_floor_iff abs_le_iff)
  moreover have "\<lceil>y\<rceil> \<le> N" using assms by (simp add: ceiling_le_iff abs_le_iff)
  ultimately show ?thesis using round_half_even_between [of y] by linarith
qed

lemma fl_idem: "fl (fl x) = fl x"
proof (cases "x = 0")
  case True
  then show ?thesis by (simp add: fl_zero)
next
  case False
  define m where "m = max (exponent x - 52) (- 1074)"
  have q: "quantum x = 2 powi m" by (simp only: quantum_def m_def)
  have m: "- 1074 \<le> m" "exponent x - 52 \<le> m" unfolding m_def by linarith+
  have "\<bar>x\<bar> < 2 powi (exponent x + 1)" by (rule exponent_bounds(2) [OF False])
  also have "(2::real) powi (exponent x + 1) \<le> 2 powi (m + 53)"
    using m(2) by (intro power_int_increasing) simp_all
  finally have "\<bar>x\<bar> < 2 ^ 53 * 2 powi m" by (simp add: power_int_add mult.commute)
  then have "\<bar>x / 2 powi m\<bar> < 2 ^ 53" by (simp add: abs_divide pos_divide_less_eq)
  then have "\<bar>x / 2 powi m\<bar> \<le> of_int (2 ^ 53)" by simp
  then have "\<bar>round_half_even (x / 2 powi m)\<bar> \<le> 2 ^ 53" by (rule round_half_even_bound)
  then have "fl (of_int (round_half_even (x / 2 powi m)) * 2 powi m)
               = of_int (round_half_even (x / 2 powi m)) * 2 powi m"
    using m(1) by (rule representable)
  then show ?thesis by (simp only: fl_def q)
qed

text \<open>Evaluation of \<open>fl\<close> at a number with \<open>2 ^ 52 \<le> |x| * 2 ^ k < 2 ^ 53\<close>.\<close>

lemma fl_eq:
  assumes "2 ^ 52 \<le> \<bar>x\<bar> * 2 ^ k" "\<bar>x\<bar> * 2 ^ k < 2 ^ 53" "k \<le> 1074"
    and "round_half_even (x * 2 ^ k) = n" "of_int n / 2 ^ k = v"
  shows "fl x = v"
proof -
  have "(2::real) powi (52 - int k) = 2 ^ 52 / 2 ^ k"
    by (simp add: power_int_diff)
  then have lo: "2 powi (52 - int k) \<le> \<bar>x\<bar>"
    using assms(1) by (simp add: pos_divide_le_eq)
  have "(2::real) powi (52 - int k + 1) = 2 ^ 53 / 2 ^ k"
    by (simp add: power_int_diff power_int_add)
  then have hi: "\<bar>x\<bar> < 2 powi (52 - int k + 1)"
    using assms(2) by (simp add: pos_less_divide_eq)
  have q: "(2::real) powi (52 - int k - 52) = 1 / 2 ^ k"
    by (simp add: power_int_minus inverse_eq_divide)
  from assms(3) have "- 1022 \<le> 52 - int k" by simp
  from fl_eval [OF lo hi this] show ?thesis
    unfolding q using assms(4,5) by simp
qed

section \<open>Quadrature in double arithmetic\<close>

lemma is_double_fl: "is_double (fl x)"
  by (simp add: is_double_def fl_idem)

lemma is_double_dyadic: "\<bar>n\<bar> \<le> 2 ^ 53 \<Longrightarrow> - 1074 \<le> k \<Longrightarrow> is_double (of_int n * 2 powi k)"
  by (simp add: is_double_def representable)

lemma is_double_small:
  "is_double 0" "is_double 1" "is_double 2" "is_double 3" "is_double 5"
  "is_double (1 / 2)" "is_double (- (1 / 2))"
  using is_double_dyadic [of 0 0] is_double_dyadic [of 1 0] is_double_dyadic [of 2 0]
    is_double_dyadic [of 3 0] is_double_dyadic [of 5 0]
    is_double_dyadic [of 1 "- 1"] is_double_dyadic [of "- 1" "- 1"]
  by simp_all




















section \<open>Properties of the assembly\<close>

text \<open>
  A loop that assigns position \<open>j\<close> for every \<open>(j, x)\<close> of an enumeration overwrites
  a segment of the array; the inner loop of \<open>ritz\<close> does so in row \<open>i\<close>, the outer
  loop row by row.  The initial content of the arrays does not matter.
\<close>

lemma fill_fold:
  "k + length xs \<le> length r \<Longrightarrow>
   fold (\<lambda>(j, x) r. r[j := g x]) (enumerate k xs) r
     = take k r @ map g xs @ drop (k + length xs) r"
proof (induction xs arbitrary: k r)
  case Nil
  then show ?case by simp
next
  case (Cons x xs)
  have k: "k < length r" using Cons.prems by simp
  have "fold (\<lambda>(j, x) r. r[j := g x]) (enumerate k (x # xs)) r
          = fold (\<lambda>(j, x) r. r[j := g x]) (enumerate (Suc k) xs) (r[k := g x])"
    by simp
  also have "\<dots> = take (Suc k) (r[k := g x]) @ map g xs @ drop (Suc k + length xs) (r[k := g x])"
    using Cons.prems by (intro Cons.IH) simp
  also have "take (Suc k) (r[k := g x]) = take k r @ [g x]"
    using k by (simp add: take_Suc_conv_app_nth)
  also have "drop (Suc k + length xs) (r[k := g x]) = drop (k + length (x # xs)) r"
    by simp
  finally show ?case by simp
qed

lemma row_fold:
  "i < length A \<Longrightarrow>
   fold (\<lambda>(j, x) A. set_entry A i j (g x)) js A
     = A[i := fold (\<lambda>(j, x) r. r[j := g x]) js (A ! i)]"
proof (induction js arbitrary: A)
  case Nil
  then show ?case by simp
next
  case (Cons jx js)
  obtain j x where jx: "jx = (j, x)" by (cases jx)
  let ?A' = "set_entry A i j (g x)"
  have len: "i < length ?A'" using Cons.prems by (simp add: set_entry_def)
  have "fold (\<lambda>(j, x) A. set_entry A i j (g x)) (jx # js) A
          = fold (\<lambda>(j, x) A. set_entry A i j (g x)) js ?A'"
    by (simp add: jx)
  also have "\<dots> = ?A'[i := fold (\<lambda>(j, x) r. r[j := g x]) js (?A' ! i)]"
    using len by (rule Cons.IH)
  also have "\<dots> = A[i := fold (\<lambda>(j, x) r. r[j := g x]) (jx # js) (A ! i)]"
    using Cons.prems by (simp add: set_entry_def jx)
  finally show ?case .
qed

lemma ritz_row_fills:
  assumes "i < length A" "length (A ! i) = length basis"
  shows "ritz_row a basis i \<phi>i A
           = A[i := map (\<lambda>(\<phi>j, d\<phi>j). a \<phi>j (fst \<phi>i) d\<phi>j (snd \<phi>i)) basis]"
proof -
  let ?g = "\<lambda>(\<phi>j, d\<phi>j). a \<phi>j (fst \<phi>i) d\<phi>j (snd \<phi>i)"
  have "ritz_row a basis i \<phi>i A
          = fold (\<lambda>(j, x) A. set_entry A i j (?g x)) (enumerate 0 basis) A"
    by (simp add: ritz_row_def case_prod_unfold)
  also have "\<dots> = A[i := fold (\<lambda>(j, x) r. r[j := ?g x]) (enumerate 0 basis) (A ! i)]"
    using assms(1) by (rule row_fold)
  also have "fold (\<lambda>(j, x) r. r[j := ?g x]) (enumerate 0 basis) (A ! i) = map ?g basis"
    using fill_fold [of 0 basis "A ! i" ?g] assms(2) by simp
  finally show ?thesis .
qed

lemma ritz_loop_fold:
  assumes "k + length xs \<le> length A" "length b = length A"
    and "\<forall>r \<in> set A. length r = length basis"
  shows "fold (\<lambda>(i, (\<phi>i, d\<phi>i)) (A, b).
                 (ritz_row a basis i (\<phi>i, d\<phi>i) A, b[i := l \<phi>i d\<phi>i]))
              (enumerate k xs) (A, b)
           = (take k A @ map (\<lambda>(\<phi>i, d\<phi>i). map (\<lambda>(\<phi>j, d\<phi>j). a \<phi>j \<phi>i d\<phi>j d\<phi>i) basis) xs
                @ drop (k + length xs) A,
              take k b @ map (\<lambda>(\<phi>i, d\<phi>i). l \<phi>i d\<phi>i) xs @ drop (k + length xs) b)"
  using assms
proof (induction xs arbitrary: k A b)
  case Nil
  then show ?case by simp
next
  case (Cons x xs)
  obtain \<phi>i d\<phi>i where x: "x = (\<phi>i, d\<phi>i)" by (cases x)
  let ?row = "map (\<lambda>(\<phi>j, d\<phi>j). a \<phi>j \<phi>i d\<phi>j d\<phi>i) basis"
  let ?A' = "A[k := ?row]"
  let ?b' = "b[k := l \<phi>i d\<phi>i]"
  have k: "k < length A" "k < length b" using Cons.prems by simp_all
  have rowlen: "length (A ! k) = length basis" using Cons.prems(3) k(1) by simp
  have step: "ritz_row a basis k (\<phi>i, d\<phi>i) A = ?A'"
    using ritz_row_fills [OF k(1) rowlen, of a "(\<phi>i, d\<phi>i)"] by simp
  have shape: "\<forall>r \<in> set ?A'. length r = length basis"
    using Cons.prems(3) by (auto dest!: set_update_subset_insert [THEN subsetD])
  have "fold (\<lambda>(i, (\<phi>i, d\<phi>i)) (A, b).
                 (ritz_row a basis i (\<phi>i, d\<phi>i) A, b[i := l \<phi>i d\<phi>i]))
              (enumerate k (x # xs)) (A, b)
        = fold (\<lambda>(i, (\<phi>i, d\<phi>i)) (A, b).
                 (ritz_row a basis i (\<phi>i, d\<phi>i) A, b[i := l \<phi>i d\<phi>i]))
              (enumerate (Suc k) xs) (?A', ?b')"
    by (simp add: x step)
  also have "\<dots> = (take (Suc k) ?A' @ map (\<lambda>(\<phi>i, d\<phi>i). map (\<lambda>(\<phi>j, d\<phi>j). a \<phi>j \<phi>i d\<phi>j d\<phi>i) basis) xs
                @ drop (Suc k + length xs) ?A',
              take (Suc k) ?b' @ map (\<lambda>(\<phi>i, d\<phi>i). l \<phi>i d\<phi>i) xs @ drop (Suc k + length xs) ?b')"
    using Cons.prems(1,2) shape by (intro Cons.IH) simp_all
  also have "take (Suc k) ?A' = take k A @ [?row]"
    using k by (simp add: take_Suc_conv_app_nth)
  also have "take (Suc k) ?b' = take k b @ [l \<phi>i d\<phi>i]"
    using k by (simp add: take_Suc_conv_app_nth)
  finally show ?case by (simp add: x)
qed

lemma ritz_loop_fills:
  assumes "length A = length basis" "length b = length basis"
    and "\<forall>r \<in> set A. length r = length basis"
  shows "ritz_loop a l basis (A, b)
           = (map (\<lambda>(\<phi>i, d\<phi>i). map (\<lambda>(\<phi>j, d\<phi>j). a \<phi>j \<phi>i d\<phi>j d\<phi>i) basis) basis,
              map (\<lambda>(\<phi>i, d\<phi>i). l \<phi>i d\<phi>i) basis)"
  using ritz_loop_fold [of 0 basis A b basis a l] assms
  by (simp add: ritz_loop_def)

lemma ritz_eq_map:
  "ritz (a, l) basis
     = (map (\<lambda>(\<phi>i, d\<phi>i). map (\<lambda>(\<phi>j, d\<phi>j). a \<phi>j \<phi>i d\<phi>j d\<phi>i) basis) basis,
        map (\<lambda>(\<phi>i, d\<phi>i). l \<phi>i d\<phi>i) basis)"
  by (simp add: ritz_loop_fills np_empty1_def np_empty2_def)

lemma ritz_shape_entries:
  assumes "ritz (a, l) basis = (A, b)"
  shows "length A = length basis" "length b = length basis"
    and "i < length basis \<Longrightarrow> length (A ! i) = length basis"
    and "i < length basis \<Longrightarrow> j < length basis \<Longrightarrow>
           A ! i ! j = a (fst (basis ! j)) (fst (basis ! i)) (snd (basis ! j)) (snd (basis ! i))"
    and "i < length basis \<Longrightarrow> b ! i = l (fst (basis ! i)) (snd (basis ! i))"
  using assms unfolding ritz_eq_map by (auto simp: case_prod_unfold)

text \<open>
  C2.  For every basis of \<open>n\<close> differentiable functions and every weak form
  \<open>(a, l)\<close>, \<open>ritz\<close> returns a matrix \<open>A\<close> of \<open>n\<close> rows of length \<open>n\<close> and a
  vector \<open>b\<close> of length \<open>n\<close> with \<open>A[i][j] = a(\<phi>_j, \<phi>_i, \<phi>_j', \<phi>_i')\<close>
  (the trial function \<open>j\<close> first, the test function \<open>i\<close> second) and
  \<open>b[i] = l(\<phi>_i, \<phi>_i')\<close>.  Nothing is assumed about \<open>a\<close>, so the order of the
  arguments holds for forms that are not symmetric.
\<close>

theorem C2_ritz_entries:
  "ritz (a, l) basis = (A, b) \<Longrightarrow>
   length A = length basis \<and> length b = length basis \<and>
   (\<forall>i<length basis. length (A ! i) = length basis \<and>
        b ! i = l (fst (basis ! i)) (snd (basis ! i)) \<and>
        (\<forall>j<length basis.
           A ! i ! j = a (fst (basis ! j)) (fst (basis ! i)) (snd (basis ! j)) (snd (basis ! i))))"
  using ritz_shape_entries [of a l basis A b] by blast

theorem C2_ritz_entries_witness:
  "ritz (\<lambda>u w du dw. u 1 * dw 2, \<lambda>w dw. w 3)
        [(\<lambda>x. x, \<lambda>x. 1), (\<lambda>x. x * x + 1, \<lambda>x. 2 * x)]
     = ([[1, 2], [4, 8]], [3, 10])
   \<and> [[1, 2], [4, 8 :: real]] ! 0 ! 1 = (\<lambda>x. x * x + 1) 1 * (\<lambda>x::real. 1) 2
   \<and> [[1, 2], [4, 8 :: real]] ! 1 ! 0 = (\<lambda>x. x) 1 * (\<lambda>x::real. 2 * x) 2
   \<and> [3, 10 :: real] ! 1 = (\<lambda>x. x * x + 1) 3"
proof -
  let ?a = "\<lambda>(u::real \<Rightarrow> real) (w::real \<Rightarrow> real) (du::real \<Rightarrow> real) (dw::real \<Rightarrow> real). u 1 * dw 2"
  let ?l = "\<lambda>(w::real \<Rightarrow> real) (dw::real \<Rightarrow> real). w 3"
  let ?basis = "[(\<lambda>x::real. x, \<lambda>x::real. 1), (\<lambda>x. x * x + 1, \<lambda>x. 2 * x)]"
  have run: "ritz (?a, ?l) ?basis = ([[1, 2], [4, 8]], [3, 10])"
    by (simp add: ritz_loop_def ritz_row_def set_entry_def np_empty1_def np_empty2_def
        enumerate_eq_zip upt_rec numeral_2_eq_2)
  have len: "(0::nat) < length ?basis" "(1::nat) < length ?basis" by simp_all
  from C2_ritz_entries [OF run] len
  have "[[1, 2], [4, 8 :: real]] ! 0 ! 1 = ?a (fst (?basis ! 1)) (fst (?basis ! 0)) (snd (?basis ! 1)) (snd (?basis ! 0))"
    and "[[1, 2], [4, 8 :: real]] ! 1 ! 0 = ?a (fst (?basis ! 0)) (fst (?basis ! 1)) (snd (?basis ! 0)) (snd (?basis ! 1))"
    and "[3, 10 :: real] ! 1 = ?l (fst (?basis ! 1)) (snd (?basis ! 1))"
    by blast+
  with run show ?thesis by simp
qed

text \<open>
  In exact arithmetic the two integrands are the same function, so the form is symmetric
  for all \<open>p\<close> and \<open>q\<close>.  With rounded products this needs more; see the double layer.
\<close>

lemma bilinear_form_symmetric_exact:
  "fst (weak_formulation integ L p q r c d) u w du dw
     = fst (weak_formulation integ L p q r c d) w u dw du
   \<and> (ritz (weak_formulation integ L p q r c d) basis = (A, b) \<longrightarrow>
        (\<forall>i<length basis. \<forall>j<length basis. A ! i ! j = A ! j ! i))"
proof -
  let ?a = "fst (weak_formulation integ L p q r c d)"
  let ?l = "snd (weak_formulation integ L p q r c d)"
  have "(\<lambda>x. p x * u x * w x + q x * du x * dw x) = (\<lambda>x. p x * w x * u x + q x * dw x * du x)" for u w du dw :: scalar_function
    by (rule ext) (simp add: mult_ac)
  then have "integ (0, L) (\<lambda>x. p x * u x * w x + q x * du x * dw x)
               = integ (0, L) (\<lambda>x. p x * w x * u x + q x * dw x * du x)" for u w du dw
    by (rule arg_cong)
  then have sym: "?a u w du dw = ?a w u dw du" for u w du dw
    by (simp add: weak_formulation_def)
  have "A ! i ! j = A ! j ! i"
    if "ritz (weak_formulation integ L p q r c d) basis = (A, b)" "i < length basis" "j < length basis" for i j
  proof -
    have r: "ritz (?a, ?l) basis = (A, b)" using that(1) by simp
    show ?thesis
      using ritz_shape_entries(4) [OF r that(2,3)] ritz_shape_entries(4) [OF r that(3,2)] sym
      by simp
  qed
  with sym show ?thesis by blast
qed

text \<open>
  C7.  For every \<open>d\<close> and every differentiable function \<open>(w, w')\<close>, the linear form
  returned by \<open>weak_formulation\<close> is \<open>d * w L\<close> plus the integral of \<open>r * w\<close>, for
  any integrator.  With the quadrature integrator of any rule and \<open>r\<close> the zero
  function, the quadrature sum is exactly 0 and \<open>l (w, w') = d * w L\<close>.
\<close>

theorem C7_boundary_flux:
  "snd (weak_formulation integ L p q r c d) w dw = d * w L + integ (0, L) (\<lambda>x. r x * w x)
   \<and> integrate ips (0, L) (\<lambda>x. 0 * w x) = 0
   \<and> snd (weak_formulation (integrate ips) L p q (\<lambda>x. 0) c d) w dw = d * w L"
  by (simp add: weak_formulation_def integrate_on_reference_element_sum_list case_prod_unfold)

text \<open>
  C8.  For every \<open>k \<ge> 1\<close>, \<open>polynomial_basis_function k\<close> is the pair
  \<open>(\<lambda>x. x ^ k, \<lambda>x. k * x ^ (k - 1))\<close>, and its first component is 0 at the
  Dirichlet point 0.  The basis lists these pairs for \<open>k = 1, 2, 3, 4\<close> in this order.
\<close>

theorem C8_polynomial_basis:
  "polynomial_basis = [polynomial_basis_function 1, polynomial_basis_function 2,
                       polynomial_basis_function 3, polynomial_basis_function 4]
   \<and> (1 \<le> k \<longrightarrow> fst (polynomial_basis_function k) x = x ^ nat k
              \<and> snd (polynomial_basis_function k) x = of_int k * x ^ (nat k - 1)
              \<and> fst (polynomial_basis_function k) 0 = 0)"
proof -
  have "[1..4] = [1, 2, 3, 4 :: int]" by (simp add: upto.simps)
  then have "polynomial_basis = [polynomial_basis_function 1, polynomial_basis_function 2,
                       polynomial_basis_function 3, polynomial_basis_function 4]"
    by (simp add: polynomial_basis_def)
  moreover have "fst (polynomial_basis_function k) x = x ^ nat k
              \<and> snd (polynomial_basis_function k) x = of_int k * x ^ (nat k - 1)
              \<and> fst (polynomial_basis_function k) 0 = 0" if "1 \<le> k"
    using that by (simp add: polynomial_basis_function_def power_int_def nat_diff_distrib)
  ultimately show ?thesis by blast
qed

theorem C8_polynomial_basis_witness:
  "(1::int) \<le> 3
   \<and> fst (polynomial_basis_function 3) 2 = 8
   \<and> snd (polynomial_basis_function 3) 2 = 12
   \<and> fst (polynomial_basis_function 3) 0 = 0"
  using C8_polynomial_basis [of 3 2] by simp

section \<open>The bilinear form in double arithmetic\<close>

lemma samples_doubles_integrate_fl: "samples_doubles (integrate_fl ips)"
proof -
  have "integrate_fl ips (a, b) f = integrate_fl ips (a, b) (\<lambda>x. f (fl x))" for a b f
    by (simp add: fl_idem)
  then show ?thesis by (simp add: samples_doubles_def del: integrate_fl.simps)
qed

lemma bilinear_fl_symmetric:
  assumes "\<forall>x. p x = 0 \<or> p x = 1" "\<forall>x. q x = 0 \<or> q x = 1" "samples_doubles integ"
    and "double_valued u" "double_valued w" "double_valued du" "double_valued dw"
  shows "fst (weak_formulation_fl integ L p q r c d) u w du dw
           = fst (weak_formulation_fl integ L p q r c d) w u dw du"
proof -
  let ?F = "\<lambda>u w du dw x. fl (fl (fl (p x * u x) * w x) + fl (fl (q x * du x) * dw x))"
  have dv: "fl (u (fl x)) = u (fl x)" "fl (w (fl x)) = w (fl x)"
    "fl (du (fl x)) = du (fl x)" "fl (dw (fl x)) = dw (fl x)" for x
    using assms(4-7) is_double_fl [of x] by (simp_all add: double_valued_def is_double_def)
  have unit: "fl (fl (k * y) * z) = fl (fl (k * z) * y)"
    if "k = 0 \<or> k = 1" "fl y = y" "fl z = z" for k y z :: real
    using that by (auto simp: fl_zero mult.commute)
  have "?F u w du dw (fl x) = ?F w u dw du (fl x)" for x
    using unit [of "p (fl x)" "u (fl x)" "w (fl x)"] unit [of "q (fl x)" "du (fl x)" "dw (fl x)"]
      assms(1,2) dv by simp
  then have eq: "(\<lambda>x. ?F u w du dw (fl x)) = (\<lambda>x. ?F w u dw du (fl x))"
    by (rule ext)
  have "integ (0, L) (?F u w du dw) = integ (0, L) (\<lambda>x. ?F u w du dw (fl x))"
    using assms(3) unfolding samples_doubles_def by blast
  also have "\<dots> = integ (0, L) (\<lambda>x. ?F w u dw du (fl x))"
    by (simp only: eq)
  also have "\<dots> = integ (0, L) (?F w u dw du)"
    using assms(3) unfolding samples_doubles_def by (rule_tac sym) blast
  finally show ?thesis
    by (simp add: weak_formulation_fl_def)
qed

text \<open>
  The form with \<open>p = 0.1\<close>, \<open>q = 0\<close> on the constants 3 and 5, integrated with the
  rule of order 1 over \<open>(0, 2)\<close>: \<open>(0.1 * 3) * 5\<close> and \<open>(0.1 * 5) * 3\<close> round
  differently.
\<close>

lemma tenth_three_five:
  "fst (weak_formulation_fl (integrate_fl [(0, 2)]) 2 (\<lambda>x. fl (1 / 10)) (\<lambda>x. 0) (\<lambda>x. 0) 0 0)
     (\<lambda>x. 3) (\<lambda>x. 5) (\<lambda>x. 0) (\<lambda>x. 0) = 6755399441055745 / 2 ^ 51"
  "fst (weak_formulation_fl (integrate_fl [(0, 2)]) 2 (\<lambda>x. fl (1 / 10)) (\<lambda>x. 0) (\<lambda>x. 0) 0 0)
     (\<lambda>x. 5) (\<lambda>x. 3) (\<lambda>x. 0) (\<lambda>x. 0) = 3"
proof -
  have e1: "fl (1 / 10) = 3602879701896397 / 2 ^ 55"
    by (rule fl_eq [where k = 56 and n = "7205759403792794"])
       (simp_all add: round_half_even_def Let_def)
  have e2: "fl ((3602879701896397 / 2 ^ 55) * 3) = 1351079888211149 / 2 ^ 52"
    by (rule fl_eq [where k = 54 and n = "5404319552844596"])
       (simp_all add: round_half_even_def Let_def)
  have e3: "fl ((1351079888211149 / 2 ^ 52) * 5) = 6755399441055745 / 2 ^ 52"
    by (rule fl_eq [where k = 52 and n = "6755399441055745"])
       (simp_all add: round_half_even_def Let_def)
  have e4: "fl (0 * 0) = 0"
    by (simp add: fl_zero)
  have e5: "fl ((6755399441055745 / 2 ^ 52) + 0) = 6755399441055745 / 2 ^ 52"
    by (rule fl_eq [where k = 52 and n = "6755399441055745"])
       (simp_all add: round_half_even_def Let_def)
  have e6: "fl (2 - 0) = 2"
    by (rule fl_eq [where k = 51 and n = "4503599627370496"])
       (simp_all add: round_half_even_def Let_def)
  have e7: "fl (2 / 2) = 1"
    by (rule fl_eq [where k = 52 and n = "4503599627370496"])
       (simp_all add: round_half_even_def Let_def)
  have e8: "fl ((6755399441055745 / 2 ^ 52) * 1) = 6755399441055745 / 2 ^ 52"
    by (rule fl_eq [where k = 52 and n = "6755399441055745"])
       (simp_all add: round_half_even_def Let_def)
  have e9: "fl (2 * (6755399441055745 / 2 ^ 52)) = 6755399441055745 / 2 ^ 51"
    by (rule fl_eq [where k = 51 and n = "6755399441055745"])
       (simp_all add: round_half_even_def Let_def)
  have e10: "fl (0 + (6755399441055745 / 2 ^ 51)) = 6755399441055745 / 2 ^ 51"
    by (rule fl_eq [where k = 51 and n = "6755399441055745"])
       (simp_all add: round_half_even_def Let_def)
  have e11: "fl ((3602879701896397 / 2 ^ 55) * 5) = 1 / 2 ^ 1"
    by (rule fl_eq [where k = 53 and n = "4503599627370496"])
       (simp_all add: round_half_even_def Let_def)
  have e12: "fl ((1 / 2 ^ 1) * 3) = 3 / 2 ^ 1"
    by (rule fl_eq [where k = 52 and n = "6755399441055744"])
       (simp_all add: round_half_even_def Let_def)
  have e13: "fl ((3 / 2 ^ 1) + 0) = 3 / 2 ^ 1"
    by (rule fl_eq [where k = 52 and n = "6755399441055744"])
       (simp_all add: round_half_even_def Let_def)
  have e14: "fl ((3 / 2 ^ 1) * 1) = 3 / 2 ^ 1"
    by (rule fl_eq [where k = 52 and n = "6755399441055744"])
       (simp_all add: round_half_even_def Let_def)
  have e15: "fl (2 * (3 / 2 ^ 1)) = 3"
    by (rule fl_eq [where k = 51 and n = "6755399441055744"])
       (simp_all add: round_half_even_def Let_def)
  have e16: "fl (0 + 3) = 3"
    by (rule fl_eq [where k = 51 and n = "6755399441055744"])
       (simp_all add: round_half_even_def Let_def)
  note steps = e1 e2 e3 e4 e5 e6 e7 e8 e9 e10 e11 e12 e13 e14 e15 e16
  show "fst (weak_formulation_fl (integrate_fl [(0, 2)]) 2 (\<lambda>x. fl (1 / 10)) (\<lambda>x. 0) (\<lambda>x. 0) 0 0)
     (\<lambda>x. 3) (\<lambda>x. 5) (\<lambda>x. 0) (\<lambda>x. 0) = 6755399441055745 / 2 ^ 51"
    by (simp only: weak_formulation_fl_def fst_conv integrate_fl.simps Let_def
        integrate_on_reference_element_fl_def py_sum_fl_def list.map prod.case foldl.simps steps)
  show "fst (weak_formulation_fl (integrate_fl [(0, 2)]) 2 (\<lambda>x. fl (1 / 10)) (\<lambda>x. 0) (\<lambda>x. 0) 0 0)
     (\<lambda>x. 5) (\<lambda>x. 3) (\<lambda>x. 0) (\<lambda>x. 0) = 3"
    by (simp only: weak_formulation_fl_def fst_conv integrate_fl.simps Let_def
        integrate_on_reference_element_fl_def py_sum_fl_def list.map prod.case foldl.simps steps)
qed

text \<open>
  C4 (as stated).  The claim is \<open>a(u, w, u', w') = a(w, u, w', u')\<close> for every choice of
  the integrator and of \<open>p\<close>, \<open>q\<close>.  In double arithmetic, with \<open>p = 0.1\<close>,
  \<open>q = 0\<close>, \<open>u = 3\<close>, \<open>w = 5\<close> and the rule of order 1 over \<open>(0, 2)\<close>, the two
  values are \<open>3.0000000000000004\<close> and \<open>3\<close>.
\<close>

theorem C4_not_symmetric_in_doubles:
  "fst (weak_formulation_fl (integrate_fl [(0, 2)]) 2 (\<lambda>x. fl (1 / 10)) (\<lambda>x. 0) (\<lambda>x. 0) 0 0)
     (\<lambda>x. 3) (\<lambda>x. 5) (\<lambda>x. 0) (\<lambda>x. 0)
   \<noteq> fst (weak_formulation_fl (integrate_fl [(0, 2)]) 2 (\<lambda>x. fl (1 / 10)) (\<lambda>x. 0) (\<lambda>x. 0) 0 0)
     (\<lambda>x. 5) (\<lambda>x. 3) (\<lambda>x. 0) (\<lambda>x. 0)"
  unfolding tenth_three_five by simp

text \<open>
  C4 (amended).  In double arithmetic, when \<open>p\<close> and \<open>q\<close> take only the values 0 and
  1 (as in the worked example, \<open>p = 0\<close> and \<open>q = 1\<close>), for every integrator that reads
  its integrand at doubles and all \<open>u\<close>, \<open>w\<close>, \<open>u'\<close>, \<open>w'\<close> that map doubles to
  doubles, \<open>a(u, w, u', w') = a(w, u, w', u')\<close> exactly, and the matrix assembled over
  any basis of such functions satisfies \<open>A[i][j] = A[j][i]\<close>.
\<close>

theorem C4_symmetric_in_doubles:
  assumes "\<forall>x. p x = 0 \<or> p x = 1" and "\<forall>x. q x = 0 \<or> q x = 1" and "samples_doubles integ"
  shows "(double_valued u \<and> double_valued w \<and> double_valued du \<and> double_valued dw \<longrightarrow>
           fst (weak_formulation_fl integ L p q r c d) u w du dw
             = fst (weak_formulation_fl integ L p q r c d) w u dw du)
       \<and> ((\<forall>(\<phi>, d\<phi>) \<in> set basis. double_valued \<phi> \<and> double_valued d\<phi>) \<longrightarrow>
            (\<forall>i<length basis. \<forall>j<length basis.
               fst (ritz (weak_formulation_fl integ L p q r c d) basis) ! i ! j
                 = fst (ritz (weak_formulation_fl integ L p q r c d) basis) ! j ! i))"
proof -
  let ?a = "fst (weak_formulation_fl integ L p q r c d)"
  let ?l = "snd (weak_formulation_fl integ L p q r c d)"
  let ?A = "fst (ritz (weak_formulation_fl integ L p q r c d) basis)"
  have "?A ! i ! j = ?A ! j ! i"
    if dv: "\<forall>(\<phi>, d\<phi>) \<in> set basis. double_valued \<phi> \<and> double_valued d\<phi>"
      and i: "i < length basis" and j: "j < length basis" for i j
  proof -
    have r: "ritz (?a, ?l) basis = (?A, snd (ritz (weak_formulation_fl integ L p q r c d) basis))"
      by simp
    have "double_valued (fst (basis ! k)) \<and> double_valued (snd (basis ! k))" if "k < length basis" for k
      using dv nth_mem [OF that] by (auto simp: case_prod_unfold)
    with i j have "?a (fst (basis ! j)) (fst (basis ! i)) (snd (basis ! j)) (snd (basis ! i))
            = ?a (fst (basis ! i)) (fst (basis ! j)) (snd (basis ! i)) (snd (basis ! j))"
      by (intro bilinear_fl_symmetric assms) simp_all
    then show ?thesis
      using ritz_shape_entries(4) [OF r i j] ritz_shape_entries(4) [OF r j i] by simp
  qed
  then show ?thesis using bilinear_fl_symmetric [OF assms] by blast
qed

theorem C4_symmetric_in_doubles_witness:
  "samples_doubles (integrate_fl [(0, 2)])
   \<and> double_valued (\<lambda>x. x) \<and> double_valued (\<lambda>x. 1)
   \<and> double_valued (\<lambda>x. fl (x * x)) \<and> double_valued (\<lambda>x. fl (2 * x))
   \<and> fst (weak_formulation_fl (integrate_fl [(0, 2)]) 2 (\<lambda>x. 0) (\<lambda>x. 1) (\<lambda>x. 1) 1 1)
         (\<lambda>x. x) (\<lambda>x. fl (x * x)) (\<lambda>x. 1) (\<lambda>x. fl (2 * x))
       = fst (weak_formulation_fl (integrate_fl [(0, 2)]) 2 (\<lambda>x. 0) (\<lambda>x. 1) (\<lambda>x. 1) 1 1)
         (\<lambda>x. fl (x * x)) (\<lambda>x. x) (\<lambda>x. fl (2 * x)) (\<lambda>x. 1)
   \<and> fst (ritz (weak_formulation_fl (integrate_fl [(0, 2)]) 2 (\<lambda>x. 0) (\<lambda>x. 1) (\<lambda>x. 1) 1 1)
              [(\<lambda>x. x, \<lambda>x. 1), (\<lambda>x. fl (x * x), \<lambda>x. fl (2 * x))]) ! 0 ! 1
       = fst (ritz (weak_formulation_fl (integrate_fl [(0, 2)]) 2 (\<lambda>x. 0) (\<lambda>x. 1) (\<lambda>x. 1) 1 1)
              [(\<lambda>x. x, \<lambda>x. 1), (\<lambda>x. fl (x * x), \<lambda>x. fl (2 * x))]) ! 1 ! 0"
proof -
  let ?basis = "[(\<lambda>x::real. x, \<lambda>x::real. 1), (\<lambda>x. fl (x * x), \<lambda>x. fl (2 * x))]"
  have p: "\<forall>x::real. (0::real) = 0 \<or> (0::real) = 1" and q: "\<forall>x::real. (1::real) = 0 \<or> (1::real) = 1"
    by simp_all
  have s: "samples_doubles (integrate_fl [(0, 2)])" by (rule samples_doubles_integrate_fl)
  have dv: "double_valued (\<lambda>x. x)" "double_valued (\<lambda>x. 1)"
    "double_valued (\<lambda>x. fl (x * x))" "double_valued (\<lambda>x. fl (2 * x))"
    using is_double_small(2) by (simp_all add: double_valued_def is_double_fl)
  then have b: "\<forall>(\<phi>, d\<phi>) \<in> set ?basis. double_valued \<phi> \<and> double_valued d\<phi>" by simp
  have len: "(0::nat) < length ?basis" "(1::nat) < length ?basis" by simp_all
  note inst = C4_symmetric_in_doubles [OF p q s, where L = 2 and r = "\<lambda>x. 1" and c = 1 and d = 1]
  from inst [where u = "\<lambda>x. x" and w = "\<lambda>x. fl (x * x)" and du = "\<lambda>x. 1" and dw = "\<lambda>x. fl (2 * x)"] dv
  have one: "fst (weak_formulation_fl (integrate_fl [(0, 2)]) 2 (\<lambda>x. 0) (\<lambda>x. 1) (\<lambda>x. 1) 1 1)
         (\<lambda>x. x) (\<lambda>x. fl (x * x)) (\<lambda>x. 1) (\<lambda>x. fl (2 * x))
       = fst (weak_formulation_fl (integrate_fl [(0, 2)]) 2 (\<lambda>x. 0) (\<lambda>x. 1) (\<lambda>x. 1) 1 1)
         (\<lambda>x. fl (x * x)) (\<lambda>x. x) (\<lambda>x. fl (2 * x)) (\<lambda>x. 1)"
    by blast
  from inst [where basis = ?basis] b len
  have two: "fst (ritz (weak_formulation_fl (integrate_fl [(0, 2)]) 2 (\<lambda>x. 0) (\<lambda>x. 1) (\<lambda>x. 1) 1 1)
              ?basis) ! 0 ! 1
       = fst (ritz (weak_formulation_fl (integrate_fl [(0, 2)]) 2 (\<lambda>x. 0) (\<lambda>x. 1) (\<lambda>x. 1) 1 1)
              ?basis) ! 1 ! 0"
    by blast
  from s dv one two show ?thesis by (intro conjI)
qed

section \<open>Properties of the worked example\<close>

text \<open>
  Each entry of the example is a multiple of the quadrature of a monomial over
  \<open>(0, 10)\<close>, which the rule of order 7 gets right up to \<open>10 ^ n / 10 ^ 14\<close>.
\<close>

lemma ritz_eq_map_pair:
  "ritz form basis
     = (map (\<lambda>(\<phi>i, d\<phi>i). map (\<lambda>(\<phi>j, d\<phi>j). fst form \<phi>j \<phi>i d\<phi>j d\<phi>i) basis) basis,
        map (\<lambda>(\<phi>i, d\<phi>i). snd form \<phi>i d\<phi>i) basis)"
  by (cases form) (simp only: ritz_eq_map fst_conv snd_conv)

lemma polynomial_basis_list:
  "polynomial_basis = [polynomial_basis_function 1, polynomial_basis_function 2,
                       polynomial_basis_function 3, polynomial_basis_function 4]"
  by (simp add: polynomial_basis_def upto.simps)

lemma basis_function_nat:
  "fst (polynomial_basis_function (int (Suc n))) = (\<lambda>x. x ^ Suc n)"
  "snd (polynomial_basis_function (int (Suc n))) = (\<lambda>x. real (Suc n) * x ^ n)"
proof -
  have e: "int (Suc n) - 1 = int n" by simp
  show "fst (polynomial_basis_function (int (Suc n))) = (\<lambda>x. x ^ Suc n)"
    by (simp add: polynomial_basis_function_def power_int_def del: of_nat_Suc power_Suc)
  show "snd (polynomial_basis_function (int (Suc n))) = (\<lambda>x. real (Suc n) * x ^ n)"
    by (simp add: polynomial_basis_function_def power_int_def e del: of_nat_Suc power_Suc)
qed

lemma order7_scaled_monomial_close:
  assumes "integration_points 7 = Some ips" and "n \<le> 7"
    and "\<bar>s + c * (10 ^ Suc n / real (Suc n)) - v\<bar> + \<bar>c\<bar> * (10 ^ n / 10 ^ 14) \<le> tol * \<bar>v\<bar>"
  shows "close_to tol (s + integrate ips (0, 10) (\<lambda>x. c * x ^ n)) v"
proof -
  let ?I = "integrate ips (0, 10) (\<lambda>x. x ^ n)"
  have "\<bar>?I - (10 ^ Suc n - 0 ^ Suc n) / real (Suc n)\<bar>
          \<le> \<bar>10 - 0\<bar> / 2 * (2 / 10 ^ 15) * (max \<bar>0\<bar> \<bar>10\<bar>) ^ n"
  proof (rule monomial_error)
    fix m assume "m \<le> n"
    with assms(2) have "m \<le> nat 7" by simp
    with assms(1) show "\<bar>moment ips m - exact_moment m\<bar> \<le> 2 / 10 ^ 15"
      by (rule tabulated_moments)
  qed
  then have I: "\<bar>?I - 10 ^ Suc n / real (Suc n)\<bar> \<le> 10 ^ n / 10 ^ 14"
    by (simp del: of_nat_Suc power_Suc)
  have "\<bar>s + c * ?I - v\<bar> = \<bar>(s + c * (10 ^ Suc n / real (Suc n)) - v) + c * (?I - 10 ^ Suc n / real (Suc n))\<bar>"
    by (simp add: algebra_simps del: of_nat_Suc power_Suc)
  also have "\<dots> \<le> \<bar>s + c * (10 ^ Suc n / real (Suc n)) - v\<bar> + \<bar>c\<bar> * \<bar>?I - 10 ^ Suc n / real (Suc n)\<bar>"
    unfolding abs_mult [symmetric] by (rule abs_triangle_ineq)
  also have "\<dots> \<le> \<bar>s + c * (10 ^ Suc n / real (Suc n)) - v\<bar> + \<bar>c\<bar> * (10 ^ n / 10 ^ 14)"
    using I by (intro add_left_mono mult_left_mono) simp_all
  also note assms(3)
  finally show ?thesis
    by (simp only: close_to_def integrate_scale)
qed

lemma example_matrix_entry:
  assumes "integration_points 7 = Some ips" and "i + j \<le> 7"
    and "\<bar>(real (Suc j) * real (Suc i)) * (10 ^ Suc (j + i) / real (Suc (j + i))) - v\<bar>
           + (real (Suc j) * real (Suc i)) * (10 ^ (j + i) / 10 ^ 14) \<le> tol * \<bar>v\<bar>"
  shows "close_to tol
           (fst (weak_formulation (integrate ips) 10 (\<lambda>x. 0) (\<lambda>x. 1) (\<lambda>x. 1) c d)
              (fst (polynomial_basis_function (int (Suc j))))
              (fst (polynomial_basis_function (int (Suc i))))
              (snd (polynomial_basis_function (int (Suc j))))
              (snd (polynomial_basis_function (int (Suc i))))) v"
proof -
  have "(\<lambda>x::real. 0 * x ^ Suc j * x ^ Suc i + 1 * (real (Suc j) * x ^ j) * (real (Suc i) * x ^ i))
          = (\<lambda>x. (real (Suc j) * real (Suc i)) * x ^ (j + i))"
  proof (rule ext)
    fix x :: real
    have "0 * y + 1 * (a * x ^ j) * (b * x ^ i) = (a * b) * x ^ (j + i)" for a b y :: real
      by (simp add: power_add)
    then show "0 * x ^ Suc j * x ^ Suc i + 1 * (real (Suc j) * x ^ j) * (real (Suc i) * x ^ i)
                 = (real (Suc j) * real (Suc i)) * x ^ (j + i)"
      by (simp only: mult.assoc)
  qed
  then have "fst (weak_formulation (integrate ips) 10 (\<lambda>x. 0) (\<lambda>x. 1) (\<lambda>x. 1) c d)
              (fst (polynomial_basis_function (int (Suc j))))
              (fst (polynomial_basis_function (int (Suc i))))
              (snd (polynomial_basis_function (int (Suc j))))
              (snd (polynomial_basis_function (int (Suc i))))
          = 0 + integrate ips (0, 10) (\<lambda>x. (real (Suc j) * real (Suc i)) * x ^ (j + i))"
    by (simp only: weak_formulation_def Let_def fst_conv basis_function_nat add_0)
  moreover have "close_to tol (0 + integrate ips (0, 10) (\<lambda>x. (real (Suc j) * real (Suc i)) * x ^ (j + i))) v"
    using assms(1) by (rule order7_scaled_monomial_close) (use assms(2,3) in \<open>simp_all add: add.commute del: of_nat_Suc of_nat_mult power_Suc\<close>)
  ultimately show ?thesis by simp
qed

lemma example_vector_entry:
  assumes "integration_points 7 = Some ips" and "Suc i \<le> 7"
    and "\<bar>10 ^ Suc i + 1 * (10 ^ Suc (Suc i) / real (Suc (Suc i))) - v\<bar>
           + \<bar>1\<bar> * (10 ^ Suc i / 10 ^ 14) \<le> tol * \<bar>v\<bar>"
  shows "close_to tol
           (snd (weak_formulation (integrate ips) 10 (\<lambda>x. 0) (\<lambda>x. 1) (\<lambda>x. 1) c 1)
              (fst (polynomial_basis_function (int (Suc i))))
              (snd (polynomial_basis_function (int (Suc i))))) v"
proof -
  have "snd (weak_formulation (integrate ips) 10 (\<lambda>x. 0) (\<lambda>x. 1) (\<lambda>x. 1) c 1)
              (fst (polynomial_basis_function (int (Suc i))))
              (snd (polynomial_basis_function (int (Suc i))))
          = 10 ^ Suc i + integrate ips (0, 10) (\<lambda>x. 1 * x ^ Suc i)"
    by (simp only: weak_formulation_def Let_def snd_conv basis_function_nat mult_1)
  moreover have "close_to tol (10 ^ Suc i + integrate ips (0, 10) (\<lambda>x. 1 * x ^ Suc i)) v"
    using assms by (rule order7_scaled_monomial_close)
  ultimately show ?thesis by simp
qed

text \<open>
  C1.  The worked example (\<open>L = 10\<close>, \<open>p = 0\<close>, \<open>q = r = 1\<close>, \<open>c = d = 1\<close>, the
  rule of order 7, the basis \<open>x, x^2, x^3, x^4\<close>) returns a matrix and a vector whose
  entries are each within relative tolerance \<open>10^-3\<close> of the stated values.
\<close>

theorem C1_example_system:
  "\<exists>A b. example_system = Some (A, b)
     \<and> list_all2 (list_all2 (close_to (1 / 1000))) A
          [[10, 100, 1000, 10000],
           [100, 133333 / 100, 15000, 160000],
           [1000, 15000, 180000, 2000000],
           [10000, 160000, 2000000, 228571429 / 10]]
     \<and> list_all2 (close_to (1 / 1000)) b [60, 43333 / 100, 3500, 30000]"
proof -
  obtain ips where ips: "integration_points 7 = Some ips"
    by (simp add: integration_points_def)
  have basis: "polynomial_basis
                 = [polynomial_basis_function (int (Suc 0)), polynomial_basis_function (int (Suc 1)),
                    polynomial_basis_function (int (Suc 2)), polynomial_basis_function (int (Suc 3))]"
    by (simp add: polynomial_basis_list)
  have sys: "example_system
               = Some (ritz (weak_formulation (integrate ips) 10 (\<lambda>x. 0) (\<lambda>x. 1) (\<lambda>x. 1) 1 1)
                            polynomial_basis)"
    by (simp add: example_system_def ips Let_def)
  let ?form = "weak_formulation (integrate ips) 10 (\<lambda>x. 0) (\<lambda>x. 1) (\<lambda>x. 1) 1 1"
  note entry = example_matrix_entry [OF ips, where tol = "1 / 1000" and c = 1 and d = 1]
    example_vector_entry [OF ips, where tol = "1 / 1000" and c = 1]
  have matrix: "list_all2 (list_all2 (close_to (1 / 1000))) (fst (ritz ?form polynomial_basis))
          [[10, 100, 1000, 10000],
           [100, 133333 / 100, 15000, 160000],
           [1000, 15000, 180000, 2000000],
           [10000, 160000, 2000000, 228571429 / 10]]"
    unfolding ritz_eq_map_pair basis
    by (simp only: fst_conv list.map case_prod_unfold list.rel_inject simp_thms)
       (intro conjI entry; simp)
  have vector: "list_all2 (close_to (1 / 1000)) (snd (ritz ?form polynomial_basis))
          [60, 43333 / 100, 3500, 30000]"
    unfolding ritz_eq_map_pair basis
    by (simp only: snd_conv list.map case_prod_unfold list.rel_inject simp_thms)
       (intro conjI entry; simp)
  show ?thesis
  proof (intro exI conjI)
    show "example_system = Some (fst (ritz ?form polynomial_basis), snd (ritz ?form polynomial_basis))"
      by (simp only: sys prod.collapse)
  qed (rule matrix, rule vector)
qed

end
